theory Spec2Isabelle
  imports Main "HOL-Library.Sublist" "HOL-Library.AList"
begin

section \<open>Data model\<close>

text \<open>
  The attachment pipeline of the bot (package \<open>slack\<close>: \<open>validateFiles\<close>,
  \<open>processFile\<close>, \<open>downloadFile\<close>, \<open>deleteSrc\<close>, \<open>processFiles\<close>) and the
  HTTP method \<open>SlackClient.request\<close> are embedded as functions that pass an explicit
  world (filesystem and the chronological list of calls made to collaborators).
  Logging calls have no effect on any value returned and are left out.

  The operating system is a Unix. Paths are resolved lexically, as \<open>filepath.Clean\<close>
  does: separators are collapsed, \<open>.\<close> is dropped, \<open>..\<close> removes the component before
  it, and a relative path starts at the working directory. Symbolic links are not
  modelled.

  Go strings and byte slices are byte sequences: both are \<open>string\<close> here.
\<close>

type_synonym path = string
type_synonym bytes = string

text \<open>
  A path as the operating system resolves it: its components from the root, without
  empty components, \<open>.\<close> or \<open>..\<close>. The root is the empty list.
\<close>

type_synonym cpath = "string list"

text \<open>\<open>dto.File\<close>: the three fields the pipeline reads.\<close>

record dto_File =
  ID :: string
  URLPrivate :: string
  Filetype :: string

text \<open>\<open>dto.SlackResponseEventMessage\<close>: the two fields \<open>processFiles\<close> reads.\<close>

record dto_Message =
  Channel :: string
  Files :: "dto_File list"

text \<open>The zero value \<open>dto.File{}\<close>.\<close>

definition zero_File :: dto_File where
  "zero_File = \<lparr>ID = [], URLPrivate = [], Filetype = []\<rparr>"

text \<open>
  Errors are values. One constructor per place an error originates in the source; the
  string carried by the constructors of library calls is the library's own description,
  which the code never inspects.
\<close>

datatype error =
    WrongFileType                 \<comment> \<open>\<open>fmt.Errorf("Wrong file type ")\<close>\<close>
  | NewRequestError string        \<comment> \<open>returned by \<open>http.NewRequest\<close>\<close>
  | ResponseNull                  \<comment> \<open>\<open>errors.New("Response cannot be null ")\<close>\<close>
  | BodyReadError string          \<comment> \<open>returned by \<open>ioutil.ReadAll\<close>\<close>
  | BadStatusCode int             \<comment> \<open>\<open>fmt.Errorf("Bad status code received: %d ", code)\<close>\<close>
  | TempFileError string          \<comment> \<open>returned by \<open>ioutil.TempFile\<close>\<close>
  | WriteError string             \<comment> \<open>returned by \<open>tmpFile.Write\<close>\<close>
  | CloseError string             \<comment> \<open>returned by \<open>tmpFile.Close\<close>\<close>
  | MalformedArchive              \<comment> \<open>extraction: the archive does not decode\<close>
  | IllegalFilePath string        \<comment> \<open>extraction: an entry escapes the destination\<close>
  | ExtractWriteError path        \<comment> \<open>extraction: a file could not be written\<close>
  | ExitError int                 \<comment> \<open>\<open>*exec.ExitError\<close> of \<open>cmd.Run\<close>, with the exit status\<close>
  | ExecError string              \<comment> \<open>\<open>cmd.Run\<close>: the program could not be started\<close>
  | RemoveAllError path string    \<comment> \<open>returned by \<open>os.RemoveAll\<close> called on the path\<close>
  | EmptyInputDir path            \<comment> \<open>packaging: nothing to archive\<close>
  | ArchiveWriteError path        \<comment> \<open>packaging: the archive could not be written\<close>
  | AttachError string            \<comment> \<open>returned by \<open>AttachFileTo\<close>\<close>

subsection \<open>Paths\<close>

fun split_on :: "char \<Rightarrow> string \<Rightarrow> string list" where
  "split_on d [] = [[]]"
| "split_on d (c # cs) =
     (if c = d then [] # split_on d cs
      else (case split_on d cs of [] \<Rightarrow> [[c]] | x # xs \<Rightarrow> (c # x) # xs))"

text \<open>
  One component read on the way down from the root; the components read so far are
  kept with the last one first. At the root \<open>..\<close> stays at the root.
\<close>

fun norm_step :: "cpath \<Rightarrow> string \<Rightarrow> cpath" where
  "norm_step st c =
     (if c = [] \<or> c = ''.'' then st
      else if c = ''..'' then (case st of [] \<Rightarrow> [] | x # st' \<Rightarrow> st')
      else c # st)"

definition normalise :: "string list \<Rightarrow> cpath" where
  "normalise cs = rev (foldl norm_step [] cs)"

text \<open>
  The location a path names, seen from a working directory. The empty path names
  nothing (\<open>ENOENT\<close>).
\<close>

definition absolute :: "path \<Rightarrow> path \<Rightarrow> path" where
  "absolute cwd p =
     (case p of [] \<Rightarrow> cwd | c # cs \<Rightarrow> if c = CHR ''/'' then p else cwd @ ''/'' @ p)"

definition resolve :: "path \<Rightarrow> path \<Rightarrow> cpath option" where
  "resolve cwd p =
     (if p = [] then None else Some (normalise (split_on CHR ''/'' (absolute cwd p))))"

text \<open>A component that names a directory entry.\<close>

definition plain :: "string \<Rightarrow> bool" where
  "plain c = (c \<noteq> [] \<and> c \<noteq> ''.'' \<and> c \<noteq> ''..'' \<and> CHR ''/'' \<notin> set c)"

definition join_comps :: "string list \<Rightarrow> string" where
  "join_comps cs = (case cs of [] \<Rightarrow> [] | c # cs' \<Rightarrow> c @ concat (map (\<lambda>x. ''/'' @ x) cs'))"

text \<open>
  \<open>endsWithDot\<close> of package \<open>os\<close>: the path is \<open>.\<close> or ends in a separator followed by
  a dot.
\<close>

definition endsWithDot :: "path \<Rightarrow> bool" where
  "endsWithDot p = (p = ''.'' \<or> prefix ''./'' (rev p))"

subsection \<open>Filesystem\<close>

text \<open>
  A filesystem is an association list from locations to nodes. A location \<open>p\<close> is
  another location \<open>q\<close> or above it exactly when \<open>prefix p q\<close>.
\<close>

datatype node = Directory | Regular bytes

type_synonym filesystem = "(cpath \<times> node) list"

definition exists_at :: "filesystem \<Rightarrow> cpath \<Rightarrow> bool" where
  "exists_at fsys q = (map_of fsys q \<noteq> None)"

definition is_directory :: "filesystem \<Rightarrow> cpath \<Rightarrow> bool" where
  "is_directory fsys q = (q = [] \<or> map_of fsys q = Some Directory)"

text \<open>A recursive removal that is complete: the location and everything below it are gone.\<close>

definition remove_tree :: "cpath \<Rightarrow> filesystem \<Rightarrow> filesystem" where
  "remove_tree p fsys = filter (\<lambda>(q, n). \<not> prefix p q) fsys"

text \<open>Removal of exactly the listed locations (what a failing recursive removal got done).\<close>

definition remove_nodes :: "cpath list \<Rightarrow> filesystem \<Rightarrow> filesystem" where
  "remove_nodes ps fsys = filter (\<lambda>(q, n). q \<notin> set ps) fsys"

text \<open>The proper ancestors of a location, the root left out.\<close>

definition parents :: "cpath \<Rightarrow> cpath list" where
  "parents q = tl (prefixes (butlast q))"

text \<open>\<open>os.MkdirAll\<close>: the directory and its missing ancestors are created.\<close>

fun mkdirs :: "cpath list \<Rightarrow> filesystem \<Rightarrow> filesystem" where
  "mkdirs [] fsys = fsys"
| "mkdirs (d # ds) fsys =
     mkdirs ds (if exists_at fsys d then fsys else fsys @ [(d, Directory)])"

definition mkdir_all :: "cpath \<Rightarrow> filesystem \<Rightarrow> filesystem" where
  "mkdir_all q fsys = mkdirs (parents q @ [q]) fsys"

text \<open>Writing a regular file, creating its missing ancestor directories.\<close>

definition write_file :: "cpath \<Rightarrow> bytes \<Rightarrow> filesystem \<Rightarrow> filesystem" where
  "write_file q b fsys = AList.update q (Regular b) (mkdirs (parents q) fsys)"

subsection \<open>The world and its collaborators\<close>

datatype run_outcome = Exited int | NotStarted string

text \<open>
  One event per call that leaves the process, with the outcome where a claim needs it:
  whether \<open>os.RemoveAll\<close> and \<open>AttachFileTo\<close> succeeded, how the external program
  ended, and which entries the result archive was built from, each named by its
  components relative to the directory that was archived.
\<close>

datatype event =
    EvRequest string string
  | EvTempFile path
  | EvUnzip path path
  | EvRun string "string list" run_outcome
  | EvRemoveAll path bool
  | EvZip path path "cpath list"
  | EvAttachFileTo string path string bool

record world =
  fs :: filesystem
  trace :: "event list"

definition log_event :: "event \<Rightarrow> world \<Rightarrow> world" where
  "log_event ev w = w\<lparr>trace := trace w @ [ev]\<rparr>"

text \<open>An \<open>*http.Response\<close>: its status code and what \<open>ioutil.ReadAll(resp.Body)\<close> gives.\<close>

record response =
  StatusCode :: int
  Body :: "bytes \<times> string option"

text \<open>
  Everything outside the repository is a field of the environment: the Go standard
  library, the operating system, the network, the archive codec and the external
  program. Each answer may depend on the world at the time of the call, so the
  environment may answer two equal calls differently. \<open>e_TMPDIR\<close> is the environment
  variable \<open>TMPDIR\<close> and \<open>e_Getwd\<close> the working directory of the process.
\<close>

record env =
  e_TMPDIR :: string
  e_Getwd :: path
  e_BaseURL :: string
  e_OAuthToken :: string
  e_NewRequest :: "string \<Rightarrow> string \<Rightarrow> string option"
  e_Do :: "world \<Rightarrow> string \<Rightarrow> string \<Rightarrow> bytes \<Rightarrow> response option \<times> string option"
  e_TempFile :: "world \<Rightarrow> string \<Rightarrow> string + string"
  e_Write :: "world \<Rightarrow> path \<Rightarrow> string option"
  e_Close :: "world \<Rightarrow> path \<Rightarrow> string option"
  e_zip_decode :: "bytes \<Rightarrow> (string \<times> bytes) list option"
  e_zip_encode :: "(string \<times> bytes) list \<Rightarrow> bytes"
  e_extract_fails :: "world \<Rightarrow> path \<Rightarrow> bool"
  e_exec :: "world \<Rightarrow> string \<Rightarrow> string list \<Rightarrow> filesystem \<times> run_outcome"
  e_RemoveAll :: "world \<Rightarrow> path \<Rightarrow> (string \<times> cpath list) option"
  e_archive_fails :: "world \<Rightarrow> path \<Rightarrow> bool"
  e_AttachFileTo :: "world \<Rightarrow> string \<Rightarrow> path \<Rightarrow> string \<Rightarrow> string option"

text \<open>\<open>os.TempDir()\<close> on Unix: \<open>$TMPDIR\<close>, or \<open>/tmp\<close> when that is empty.\<close>

definition os_TempDir :: "env \<Rightarrow> path" where
  "os_TempDir en = (if e_TMPDIR en = [] then ''/tmp'' else e_TMPDIR en)"

text \<open>
  The location a path names for the process, whether something exists at a path, and
  whether a path names another path's location or a directory above it.
\<close>

definition locate :: "env \<Rightarrow> path \<Rightarrow> cpath option" where
  "locate en p = resolve (e_Getwd en) p"

definition node_at :: "env \<Rightarrow> filesystem \<Rightarrow> path \<Rightarrow> node option" where
  "node_at en fsys p = (case locate en p of None \<Rightarrow> None | Some q \<Rightarrow> map_of fsys q)"

definition path_exists :: "env \<Rightarrow> filesystem \<Rightarrow> path \<Rightarrow> bool" where
  "path_exists en fsys p = (node_at en fsys p \<noteq> None)"

definition path_within :: "env \<Rightarrow> path \<Rightarrow> path \<Rightarrow> bool" where
  "path_within en p p' =
     (case locate en p of
        None \<Rightarrow> False
      | Some a \<Rightarrow> (case locate en p' of None \<Rightarrow> False | Some b \<Rightarrow> prefix a b))"

text \<open>
  Whether the entry of the given relative name, in an archive built from the directory
  a path names, is the file another path names.
\<close>

definition entry_is :: "env \<Rightarrow> path \<Rightarrow> cpath \<Rightarrow> path \<Rightarrow> bool" where
  "entry_is en dir n p =
     (case locate en dir of None \<Rightarrow> False | Some d \<Rightarrow> locate en p = Some (d @ n))"

text \<open>Whether a location is the directory a path names, or lies below it.\<close>

definition inside :: "env \<Rightarrow> path \<Rightarrow> cpath \<Rightarrow> bool" where
  "inside en p q = (case locate en p of None \<Rightarrow> False | Some a \<Rightarrow> prefix a q)"

section \<open>Validation\<close>

definition zipFileType :: string where
  "zipFileType = ''zip''"

definition defaultResultFilename :: string where
  "defaultResultFilename = ''result.zip''"

definition supportedFileTypes :: "string \<rightharpoonup> string" where
  "supportedFileTypes = [zipFileType \<mapsto> zipFileType]"

text \<open>A Go map read of a missing key yields the empty string.\<close>

definition isValidFile :: "string \<Rightarrow> bool" where
  "isValidFile fileType =
     ((case supportedFileTypes fileType of None \<Rightarrow> [] | Some v \<Rightarrow> v) \<noteq> [])"

fun validateFiles :: "dto_File list \<Rightarrow> dto_File \<times> error option" where
  "validateFiles [] = (zero_File, None)"
| "validateFiles (file # files) =
     (if \<not> isValidFile (Filetype file) then (file, Some WrongFileType)
      else validateFiles files)"

section \<open>The HTTP request method\<close>

text \<open>
  \<open>SlackClient.request\<close>. The answer of \<open>client.Client.Do\<close> is a pair, as in Go: a
  response that may be nil and an error that may be nil. The code tests the response
  only; the error is read for the log message alone.
\<close>

definition request ::
  "env \<Rightarrow> string \<Rightarrow> string \<Rightarrow> bytes \<Rightarrow> world \<Rightarrow> (bytes \<times> int \<times> error option) \<times> world" where
  "request en method endpoint body w =
     (case e_NewRequest en method (e_BaseURL en @ endpoint) of
        Some msg \<Rightarrow> (([], 0, Some (NewRequestError msg)), w)
      | None \<Rightarrow>
          (let w' = log_event (EvRequest method (e_BaseURL en @ endpoint)) w in
           case e_Do en w method (e_BaseURL en @ endpoint) body of
             (None, errorResponse) \<Rightarrow> (([], 0, Some ResponseNull), w')
           | (Some resp, errorResponse) \<Rightarrow>
               (case Body resp of
                  (byteResp, Some msg) \<Rightarrow> ((byteResp, 0, Some (BodyReadError msg)), w')
                | (byteResp, None) \<Rightarrow>
                    if StatusCode resp \<ge> 400
                    then ((byteResp, StatusCode resp, Some (BadStatusCode (StatusCode resp))), w')
                    else ((byteResp, StatusCode resp, None), w'))))"

section \<open>Download\<close>

text \<open>
  The name \<open>ioutil.TempFile\<close> gives a file in a directory: one separator between the
  two.
\<close>

definition path_join :: "path \<Rightarrow> string \<Rightarrow> path" where
  "path_join dir name =
     (if dir \<noteq> [] \<and> last dir = CHR ''/'' then dir @ name else dir @ ''/'' @ name)"

text \<open>
  \<open>downloadFile\<close>. \<open>ioutil.TempFile(os.TempDir(), "devbot-*.zip")\<close> replaces the star
  by a string of its choice and creates the file exclusively in the directory: the
  environment supplies that string, a name that is taken is a failure, and so is a
  directory that does not exist. The exported \<open>Request\<close> the pipeline calls is the
  method \<open>request\<close> above.
\<close>

definition downloadFile :: "env \<Rightarrow> string \<Rightarrow> world \<Rightarrow> (error + path) \<times> world" where
  "downloadFile en url w =
     (case request en ''GET'' url [] w of
        ((resp, code, Some err), w1) \<Rightarrow> (Inl err, w1)
      | ((resp, code, None), w1) \<Rightarrow>
          (case e_TempFile en w1 (os_TempDir en) of
             Inl msg \<Rightarrow> (Inl (TempFileError msg), w1)
           | Inr r \<Rightarrow>
               (let tmp = path_join (os_TempDir en) (''devbot-'' @ r @ ''.zip'') in
                case locate en tmp of
                  None \<Rightarrow> (Inl (TempFileError ''no such file or directory''), w1)
                | Some q \<Rightarrow>
                if exists_at (fs w1) q then (Inl (TempFileError ''file exists''), w1)
                else if \<not> is_directory (fs w1) (butlast q)
                then (Inl (TempFileError ''no such file or directory''), w1)
                else
                  (let w2 = log_event (EvTempFile tmp) (w1\<lparr>fs := fs w1 @ [(q, Regular [])]\<rparr>) in
                   case e_Write en w2 tmp of
                     Some msg \<Rightarrow> (Inl (WriteError msg), w2)
                   | None \<Rightarrow>
                       (let w3 = w2\<lparr>fs := AList.update q (Regular resp) (fs w2)\<rparr> in
                        case e_Close en w3 tmp of
                          Some msg \<Rightarrow> (Inl (CloseError msg), w3)
                        | None \<Rightarrow> (Inr tmp, w3))))))"

section \<open>Extraction\<close>

text \<open>
  The components of an entry name, and their resolution relative to a directory:
  empty components and \<open>.\<close> are dropped, \<open>..\<close> removes the component before it, and a
  \<open>..\<close> with nothing before it leaves the directory (\<open>None\<close>).
\<close>

fun clean_rel :: "string list \<Rightarrow> string list \<Rightarrow> string list option" where
  "clean_rel acc [] = Some (rev acc)"
| "clean_rel acc (c # cs) =
     (if c = [] \<or> c = ''.'' then clean_rel acc cs
      else if c = ''..'' then (case acc of [] \<Rightarrow> None | a # acc' \<Rightarrow> clean_rel acc' cs)
      else clean_rel (c # acc) cs)"

definition escapes :: "string \<Rightarrow> bool" where
  "escapes name = (clean_rel [] (split_on CHR ''/'' name) = None)"

definition entry_target :: "path \<Rightarrow> string \<Rightarrow> path option" where
  "entry_target dest name =
     (case clean_rel [] (split_on CHR ''/'' name) of
        None \<Rightarrow> None
      | Some comps \<Rightarrow> Some (dest @ concat (map (\<lambda>c. ''/'' @ c) comps)))"

text \<open>
  Modelled from the spec: \<open>helper.Unzip\<close> is not among the sources. Section 4.3 gives
  its contract: the destination directory is populated with the contents of the
  archive; the errors are a malformed archive, a filesystem write failure, and an entry
  whose path escapes the destination, which must be rejected and not followed. The
  entries are taken in archive order; the concrete codec is the environment's.
\<close>

fun extract_entries ::
  "env \<Rightarrow> path \<Rightarrow> (string \<times> bytes) list \<Rightarrow> world \<Rightarrow> (error + path list) \<times> world" where
  "extract_entries en dest [] w = (Inr [], w)"
| "extract_entries en dest ((name, data) # es) w =
     (case entry_target dest name of
        None \<Rightarrow> (Inl (IllegalFilePath name), w)
      | Some target \<Rightarrow>
          (case locate en target of
             None \<Rightarrow> (Inl (ExtractWriteError target), w)
           | Some q \<Rightarrow>
          if e_extract_fails en w target then (Inl (ExtractWriteError target), w)
          else
            (case extract_entries en dest es (w\<lparr>fs := write_file q data (fs w)\<rparr>) of
               (Inl err, w') \<Rightarrow> (Inl err, w')
             | (Inr names, w') \<Rightarrow> (Inr (target # names), w'))))"

definition Unzip :: "env \<Rightarrow> path \<Rightarrow> path \<Rightarrow> world \<Rightarrow> (error + path list) \<times> world" where
  "Unzip en archive dest w0 =
     (let w = log_event (EvUnzip archive dest) w0 in
      case node_at en (fs w) archive of
        Some (Regular b) \<Rightarrow>
          (case e_zip_decode en b of
             None \<Rightarrow> (Inl MalformedArchive, w)
           | Some entries \<Rightarrow>
               (case locate en dest of
                  None \<Rightarrow> (Inl (ExtractWriteError dest), w)
                | Some d \<Rightarrow> extract_entries en dest entries (w\<lparr>fs := mkdir_all d (fs w)\<rparr>)))
      | Some Directory \<Rightarrow> (Inl MalformedArchive, w)
      | None \<Rightarrow> (Inl MalformedArchive, w))"

section \<open>Transformation\<close>

text \<open>
  \<open>cmd.Run()\<close> of \<open>os/exec\<close>: nil when the program ran and exited with status zero, an
  \<open>*exec.ExitError\<close> with the status when it exited otherwise, another error when it
  could not be started. What the program does to the filesystem is the environment's.
\<close>

definition cmd_Run :: "env \<Rightarrow> string \<Rightarrow> string list \<Rightarrow> world \<Rightarrow> error option \<times> world" where
  "cmd_Run en name args w =
     (case e_exec en w name args of
        (fsys, Exited n) \<Rightarrow>
          (let w' = log_event (EvRun name args (Exited n)) (w\<lparr>fs := fsys\<rparr>) in
           if n = 0 then (None, w') else (Some (ExitError n), w'))
      | (fsys, NotStarted msg) \<Rightarrow>
          (Some (ExecError msg), log_event (EvRun name args (NotStarted msg)) w))"

section \<open>Staging area removal\<close>

text \<open>
  \<open>os.RemoveAll\<close>. The empty path is nil and removes nothing. A path that ends in a
  dot is refused with \<open>EINVAL\<close>. Otherwise nil means that nothing is left at the
  location the path names or below it; when the call fails, it may already have
  removed some of the nodes there.
\<close>

definition os_RemoveAll :: "env \<Rightarrow> path \<Rightarrow> world \<Rightarrow> error option \<times> world" where
  "os_RemoveAll en p w =
     (if p = [] then (None, log_event (EvRemoveAll p True) w)
      else if endsWithDot p
      then (Some (RemoveAllError p ''invalid argument''), log_event (EvRemoveAll p False) w)
      else
        (case locate en p of
           None \<Rightarrow> (None, log_event (EvRemoveAll p True) w)
         | Some q \<Rightarrow>
             (case e_RemoveAll en w p of
                None \<Rightarrow> (None, log_event (EvRemoveAll p True) (w\<lparr>fs := remove_tree q (fs w)\<rparr>))
              | Some (msg, removed) \<Rightarrow>
                  (Some (RemoveAllError p msg),
                   log_event (EvRemoveAll p False)
                     (w\<lparr>fs := remove_nodes (filter (prefix q) removed) (fs w)\<rparr>)))))"

text \<open>\<open>deleteSrc\<close> is \<open>os.RemoveAll\<close>.\<close>

definition deleteSrc :: "env \<Rightarrow> path \<Rightarrow> world \<Rightarrow> error option \<times> world" where
  "deleteSrc en src w = os_RemoveAll en src w"

section \<open>Packaging and upload\<close>

text \<open>The regular files strictly below a directory, named relative to it.\<close>

definition below :: "cpath \<Rightarrow> filesystem \<Rightarrow> filesystem" where
  "below d fsys = filter (\<lambda>(q, n). prefix d q \<and> q \<noteq> d) fsys"

definition archive_entries :: "cpath \<Rightarrow> filesystem \<Rightarrow> (cpath \<times> bytes) list" where
  "archive_entries d fsys =
     concat (map (\<lambda>(q, n). case n of Regular b \<Rightarrow> [(drop (length d) q, b)]
                                   | Directory \<Rightarrow> [])
                 (below d fsys))"

text \<open>
  Modelled from the spec: \<open>helper.Zip\<close> is not among the sources. Section 4.6 gives
  its contract: the input is the staging root directory, the output a single archive
  file at the given location; the errors are an empty or nonexistent input directory
  and an archive-write failure. The archive holds the regular files below the input
  directory as the filesystem has them at the call, each under its path relative to
  that directory.
\<close>

definition Zip :: "env \<Rightarrow> path \<Rightarrow> path \<Rightarrow> world \<Rightarrow> error option \<times> world" where
  "Zip en src target w =
     (case locate en src of
        None \<Rightarrow> (Some (EmptyInputDir src), log_event (EvZip src target []) w)
      | Some d \<Rightarrow>
     (let entries = archive_entries d (fs w);
          w' = log_event (EvZip src target (map fst entries)) w in
      if below d (fs w) = [] then (Some (EmptyInputDir src), w')
      else
        (case locate en target of
           None \<Rightarrow> (Some (ArchiveWriteError target), w')
         | Some t \<Rightarrow>
             if e_archive_fails en w target then (Some (ArchiveWriteError target), w')
             else (None, w'\<lparr>fs := write_file t
                     (e_zip_encode en (map (\<lambda>(n, b). (join_comps n, b)) entries)) (fs w')\<rparr>))))"

text \<open>
  Modelled from the spec: the method \<open>AttachFileTo\<close> of the client is not among the
  sources. Sections 4.7 and 6 give its contract: one attempt to deliver the file at
  the local path to the conversation under the display name, returning the error the
  collaborator reports. It leaves the filesystem as it is.
\<close>

definition AttachFileTo ::
  "env \<Rightarrow> string \<Rightarrow> path \<Rightarrow> string \<Rightarrow> world \<Rightarrow> error option \<times> world" where
  "AttachFileTo en channel p name w =
     (case e_AttachFileTo en w channel p name of
        None \<Rightarrow> (None, log_event (EvAttachFileTo channel p name True) w)
      | Some msg \<Rightarrow> (Some (AttachError msg), log_event (EvAttachFileTo channel p name False) w))"

section \<open>The pipeline\<close>

text \<open>The staging root \<open>src\<close> of an attachment and the extracted subtree in it.\<close>

definition staging_root :: "env \<Rightarrow> dto_File \<Rightarrow> path" where
  "staging_root en file = os_TempDir en @ ID file"

definition extracted_dir :: "env \<Rightarrow> dto_File \<Rightarrow> path" where
  "extracted_dir en file = staging_root en file @ ''/downloaded_template''"

definition result_path :: "env \<Rightarrow> dto_File \<Rightarrow> path" where
  "result_path en file = staging_root en file @ ''/'' @ defaultResultFilename"

text \<open>\<open>processFile\<close>: seven calls in sequence, each error returned at once.\<close>

definition processFile ::
  "env \<Rightarrow> string \<Rightarrow> dto_File \<Rightarrow> world \<Rightarrow> (dto_File \<times> error option) \<times> world" where
  "processFile en channel file w0 =
     (case downloadFile en (URLPrivate file) w0 of
        (Inl err, w1) \<Rightarrow> ((file, Some err), w1)
      | (Inr tmpFile, w1) \<Rightarrow>
     (case Unzip en tmpFile (extracted_dir en file) w1 of
        (Inl err, w2) \<Rightarrow> ((file, Some err), w2)
      | (Inr names, w2) \<Rightarrow>
     (case cmd_Run en ''./scripts/themer/themer.phar''
             [''--path='' @ extracted_dir en file] w2 of
        (Some err, w3) \<Rightarrow> ((file, Some err), w3)
      | (None, w3) \<Rightarrow>
     (case deleteSrc en (extracted_dir en file) w3 of
        (Some err, w4) \<Rightarrow> ((file, Some err), w4)
      | (None, w4) \<Rightarrow>
     (case Zip en (staging_root en file) (result_path en file) w4 of
        (Some err, w5) \<Rightarrow> ((file, Some err), w5)
      | (None, w5) \<Rightarrow>
     (case AttachFileTo en channel (result_path en file) defaultResultFilename w5 of
        (Some err, w6) \<Rightarrow> ((file, Some err), w6)
      | (None, w6) \<Rightarrow>
     (case deleteSrc en (staging_root en file) w6 of
        (Some err, w7) \<Rightarrow> ((file, Some err), w7)
      | (None, w7) \<Rightarrow> ((file, None), w7))))))))"

text \<open>The loop of \<open>processFiles\<close> over the attachments, and \<open>processFiles\<close>.\<close>

fun processEach ::
  "env \<Rightarrow> string \<Rightarrow> dto_File list \<Rightarrow> world \<Rightarrow> (dto_File \<times> error option) \<times> world" where
  "processEach en channel [] w = ((zero_File, None), w)"
| "processEach en channel (fileReceived # rest) w =
     (case processFile en channel fileReceived w of
        ((file, Some err), w') \<Rightarrow> ((file, Some err), w')
      | ((file, None), w') \<Rightarrow> processEach en channel rest w')"

definition processFiles ::
  "env \<Rightarrow> dto_Message \<Rightarrow> world \<Rightarrow> (dto_File \<times> error option) \<times> world" where
  "processFiles en message w =
     (case validateFiles (Files message) of
        (file, Some err) \<Rightarrow> ((file, Some err), w)
      | (file, None) \<Rightarrow> processEach en (Channel message) (Files message) w)"

section \<open>Reading a trace\<close>

text \<open>The events a run added to the trace.\<close>

definition events_since :: "world \<Rightarrow> world \<Rightarrow> event list" where
  "events_since w w' = drop (length (trace w)) (trace w')"

fun is_request :: "event \<Rightarrow> bool" where
  "is_request (EvRequest m u) = True"
| "is_request ev = False"

fun is_zip :: "event \<Rightarrow> bool" where
  "is_zip (EvZip s t ns) = True"
| "is_zip ev = False"

fun is_attach :: "event \<Rightarrow> bool" where
  "is_attach (EvAttachFileTo c p n ok) = True"
| "is_attach ev = False"

fun is_teardown :: "path \<Rightarrow> event \<Rightarrow> bool" where
  "is_teardown p (EvRemoveAll q ok) = (q = p)"
| "is_teardown p ev = False"

text \<open>The upload calls of a trace, in order, and those among them that succeeded.\<close>

fun upload_calls :: "event list \<Rightarrow> (string \<times> path \<times> string) list" where
  "upload_calls [] = []"
| "upload_calls (EvAttachFileTo c p n ok # evs) = (c, p, n) # upload_calls evs"
| "upload_calls (ev # evs) = upload_calls evs"

fun uploads_done :: "event list \<Rightarrow> (string \<times> path \<times> string) list" where
  "uploads_done [] = []"
| "uploads_done (EvAttachFileTo c p n ok # evs) =
     (if ok then (c, p, n) # uploads_done evs else uploads_done evs)"
| "uploads_done (ev # evs) = uploads_done evs"

text \<open>The upload of an attachment: its result archive, to the channel of the message.\<close>

definition upload_of :: "env \<Rightarrow> string \<Rightarrow> dto_File \<Rightarrow> string \<times> path \<times> string" where
  "upload_of en channel file = (channel, result_path en file, defaultResultFilename)"

section \<open>The paths through \<open>processFile\<close>\<close>

text \<open>
  The events of the download and of the extraction, and the errors these two stages
  return.
\<close>

fun quiet :: "event \<Rightarrow> bool" where
  "quiet (EvRequest m u) = True"
| "quiet (EvTempFile p) = True"
| "quiet (EvUnzip a d) = True"
| "quiet ev = False"

fun early_error :: "error \<Rightarrow> bool" where
  "early_error (NewRequestError m) = True"
| "early_error ResponseNull = True"
| "early_error (BodyReadError m) = True"
| "early_error (BadStatusCode n) = True"
| "early_error (TempFileError m) = True"
| "early_error (WriteError m) = True"
| "early_error (CloseError m) = True"
| "early_error MalformedArchive = True"
| "early_error (IllegalFilePath n) = True"
| "early_error (ExtractWriteError p) = True"
| "early_error e = False"

text \<open>
  Where a run of \<open>processFile\<close> ended: in the download or the extraction, in the
  external program, in the removal of the extracted subtree, in the packaging, in the
  upload, in the final removal of the staging root, or after it. The later endings
  carry the entries the archive was built from.
\<close>

datatype ending =
    Early
  | RunFailed run_outcome
  | CleanFailed
  | ZipFailed "cpath list"
  | AttachFailed "cpath list"
  | TeardownFailed "cpath list"
  | Completed "cpath list"

definition themer_event :: "env \<Rightarrow> dto_File \<Rightarrow> run_outcome \<Rightarrow> event" where
  "themer_event en f out =
     EvRun ''./scripts/themer/themer.phar'' [''--path='' @ extracted_dir en f] out"

definition zip_event :: "env \<Rightarrow> dto_File \<Rightarrow> cpath list \<Rightarrow> event" where
  "zip_event en f ns = EvZip (staging_root en f) (result_path en f) ns"

definition attach_event :: "env \<Rightarrow> string \<Rightarrow> dto_File \<Rightarrow> bool \<Rightarrow> event" where
  "attach_event en ch f ok = EvAttachFileTo ch (result_path en f) defaultResultFilename ok"

fun tail_events :: "env \<Rightarrow> string \<Rightarrow> dto_File \<Rightarrow> ending \<Rightarrow> event list" where
  "tail_events en ch f Early = []"
| "tail_events en ch f (RunFailed out) = [themer_event en f out]"
| "tail_events en ch f CleanFailed =
     [themer_event en f (Exited 0), EvRemoveAll (extracted_dir en f) False]"
| "tail_events en ch f (ZipFailed ns) =
     [themer_event en f (Exited 0), EvRemoveAll (extracted_dir en f) True, zip_event en f ns]"
| "tail_events en ch f (AttachFailed ns) =
     [themer_event en f (Exited 0), EvRemoveAll (extracted_dir en f) True, zip_event en f ns,
      attach_event en ch f False]"
| "tail_events en ch f (TeardownFailed ns) =
     [themer_event en f (Exited 0), EvRemoveAll (extracted_dir en f) True, zip_event en f ns,
      attach_event en ch f True, EvRemoveAll (staging_root en f) False]"
| "tail_events en ch f (Completed ns) =
     [themer_event en f (Exited 0), EvRemoveAll (extracted_dir en f) True, zip_event en f ns,
      attach_event en ch f True, EvRemoveAll (staging_root en f) True]"

fun run_error :: "run_outcome \<Rightarrow> error" where
  "run_error (Exited n) = ExitError n"
| "run_error (NotStarted msg) = ExecError msg"

text \<open>The error \<open>processFile\<close> returns at each ending.\<close>

fun ending_result :: "env \<Rightarrow> dto_File \<Rightarrow> ending \<Rightarrow> error option \<Rightarrow> bool" where
  "ending_result en f Early r = (case r of None \<Rightarrow> False | Some e \<Rightarrow> early_error e)"
| "ending_result en f (RunFailed out) r = (out \<noteq> Exited 0 \<and> r = Some (run_error out))"
| "ending_result en f CleanFailed r =
     (case r of Some (RemoveAllError p m) \<Rightarrow> p = extracted_dir en f | _ \<Rightarrow> False)"
| "ending_result en f (ZipFailed ns) r =
     (r = Some (EmptyInputDir (staging_root en f)) \<or>
      r = Some (ArchiveWriteError (result_path en f)))"
| "ending_result en f (AttachFailed ns) r =
     (case r of Some (AttachError m) \<Rightarrow> True | _ \<Rightarrow> False)"
| "ending_result en f (TeardownFailed ns) r =
     (case r of Some (RemoveAllError p m) \<Rightarrow> p = staging_root en f | _ \<Rightarrow> False)"
| "ending_result en f (Completed ns) r = (r = None)"

fun ending_names :: "ending \<Rightarrow> cpath list" where
  "ending_names (ZipFailed ns) = ns"
| "ending_names (AttachFailed ns) = ns"
| "ending_names (TeardownFailed ns) = ns"
| "ending_names (Completed ns) = ns"
| "ending_names e = []"

text \<open>
  The entries of an archive built from the staging root of an attachment when nothing
  is left at the extracted subtree or below it: the regular files below the staging
  root of some filesystem from which that subtree has been removed.
\<close>

definition built_after_removal :: "env \<Rightarrow> dto_File \<Rightarrow> cpath list \<Rightarrow> bool" where
  "built_after_removal en f ns =
     (\<exists>fsys d. locate en (staging_root en f) = Some d \<and>
        ns = map fst (archive_entries d (remove_tree (d @ [''downloaded_template'']) fsys)))"

text \<open>The error of a failed final removal of the staging root of an attachment.\<close>

fun teardown_error :: "env \<Rightarrow> dto_File \<Rightarrow> error option \<Rightarrow> bool" where
  "teardown_error en f (Some (RemoveAllError p m)) = (p = staging_root en f)"
| "teardown_error en f r = False"

text \<open>The error of a failed upload.\<close>

fun attach_failed :: "error option \<Rightarrow> bool" where
  "attach_failed (Some (AttachError m)) = True"
| "attach_failed r = False"

section \<open>Concrete runs\<close>

text \<open>
  An environment in which every collaborator succeeds: \<open>TMPDIR\<close> is not set, so the
  temp directory is \<open>/tmp\<close>; the download answers 200, the
  archive holds \<open>a.txt\<close> and \<open>b/c.txt\<close>, and the external program writes one output file
  into a sibling directory of the extracted subtree and exits with status zero.
\<close>

definition env0 :: env where
  "env0 = \<lparr> e_TMPDIR = [], e_Getwd = ''/srv/devbot'', e_BaseURL = [], e_OAuthToken = ''xoxb'',
     e_NewRequest = (\<lambda>m u. None),
     e_Do = (\<lambda>w m u b. (Some \<lparr>StatusCode = 200, Body = (''PK'', None)\<rparr>, None)),
     e_TempFile = (\<lambda>w d.
        if exists_at (fs w) [''tmp'', ''devbot-1.zip''] then Inr ''2'' else Inr ''1''),
     e_Write = (\<lambda>w p. None),
     e_Close = (\<lambda>w p. None),
     e_zip_decode = (\<lambda>b. Some [(''a.txt'', ''A''), (''b/c.txt'', ''C'')]),
     e_zip_encode = (\<lambda>es. ''PK''),
     e_extract_fails = (\<lambda>w p. False),
     e_exec = (\<lambda>w n args.
        (case args of [] \<Rightarrow> fs w
         | a # as \<Rightarrow>
             (case resolve ''/srv/devbot'' (drop 7 a @ ''_out/index.html'') of
                None \<Rightarrow> fs w
              | Some q \<Rightarrow> write_file q ''H'' (fs w)), Exited 0)),
     e_RemoveAll = (\<lambda>w p. None),
     e_archive_fails = (\<lambda>w p. False),
     e_AttachFileTo = (\<lambda>w c p n. None) \<rparr>"

text \<open>The external program exits with status 2 and writes nothing.\<close>

definition env_exit2 :: env where
  "env_exit2 = env0\<lparr>e_exec := (\<lambda>w n args. (fs w, Exited 2))\<rparr>"

text \<open>The final removal of the staging root of \<open>F1\<close> fails.\<close>

definition env_teardown_fails :: env where
  "env_teardown_fails =
     env0\<lparr>e_RemoveAll := (\<lambda>w p. if p = ''/tmpF1'' then Some (''permission denied'', []) else None)\<rparr>"

text \<open>
  The transport reports an error together with a response: the last answer of a
  redirect chain that was cut off, status 302, with an empty body that reads fine.
\<close>

definition env_redirect :: env where
  "env_redirect =
     env0\<lparr>e_Do := (\<lambda>w m u b.
        (Some \<lparr>StatusCode = 302, Body = ([], None)\<rparr>, Some ''stopped after 10 redirects''))\<rparr>"

text \<open>The transport answers with status 404.\<close>

definition env_404 :: env where
  "env_404 =
     env0\<lparr>e_Do := (\<lambda>w m u b. (Some \<lparr>StatusCode = 404, Body = (''no'', None)\<rparr>, None))\<rparr>"

text \<open>The archive holds an entry that leaves the destination.\<close>

definition env_slip :: env where
  "env_slip =
     env0\<lparr>e_zip_decode := (\<lambda>b. Some [(''a.txt'', ''A''), (''../../etc/passwd'', ''root'')])\<rparr>"

text \<open>The external program fails, with status 2, on the attachment \<open>F2\<close> alone.\<close>

definition env_second_fails :: env where
  "env_second_fails =
     env0\<lparr>e_exec := (\<lambda>w n args.
        if args = [''--path=/tmpF2/downloaded_template''] then (fs w, Exited 2)
        else e_exec env0 w n args)\<rparr>"

definition w0 :: world where
  "w0 = \<lparr>fs = [([''tmp''], Directory)], trace = []\<rparr>"

text \<open>A world in which a downloaded archive is on disk.\<close>

definition w_zip :: world where
  "w_zip = \<lparr>fs = [([''tmp''], Directory), ([''tmp'', ''a.zip''], Regular ''PK'')], trace = []\<rparr>"

definition F1 :: dto_File where
  "F1 = \<lparr>ID = ''F1'', URLPrivate = ''http://x/a.zip'', Filetype = ''zip''\<rparr>"

definition F2 :: dto_File where
  "F2 = \<lparr>ID = ''F2'', URLPrivate = ''http://x/b.zip'', Filetype = ''zip''\<rparr>"

definition F_png :: dto_File where
  "F_png = \<lparr>ID = ''F3'', URLPrivate = ''http://x/c.png'', Filetype = ''png''\<rparr>"

definition msg12 :: dto_Message where
  "msg12 = \<lparr>Channel = ''C1'', Files = [F1, F2]\<rparr>"

definition F_noid :: dto_File where
  "F_noid = \<lparr>ID = [], URLPrivate = ''http://x/a.zip'', Filetype = ''zip''\<rparr>"

text \<open>An attachment whose identifier is a separator.\<close>

definition F_slash :: dto_File where
  "F_slash = \<lparr>ID = ''/'', URLPrivate = ''http://x/a.zip'', Filetype = ''zip''\<rparr>"

text \<open>\<open>TMPDIR\<close> is set and ends in a separator.\<close>

definition env_tmpdir_slash :: env where
  "env_tmpdir_slash = env0\<lparr>e_TMPDIR := ''/tmp/''\<rparr>"

text \<open>
  A world in which the staging root of \<open>F1\<close> is on disk already, left behind by an
  earlier run.
\<close>

definition w_left :: world where
  "w_left = \<lparr>fs = [([''tmp''], Directory), ([''tmpF1''], Directory),
                   ([''tmpF1'', ''old.html''], Regular ''O'')], trace = []\<rparr>"

section \<open>Validation: results\<close>

lemma isValidFile_iff: "isValidFile t \<longleftrightarrow> t = ''zip''"
  by (simp add: isValidFile_def supportedFileTypes_def zipFileType_def)

lemma validateFiles_all_valid:
  "list_all (\<lambda>f. isValidFile (Filetype f)) files \<Longrightarrow> validateFiles files = (zero_File, None)"
  by (induction files) auto

lemma validateFiles_first_invalid:
  "list_all (\<lambda>g. isValidFile (Filetype g)) ys \<Longrightarrow> \<not> isValidFile (Filetype f) \<Longrightarrow>
   validateFiles (ys @ f # zs) = (f, Some WrongFileType)"
  by (induction ys) auto

lemma first_invalid_split:
  "\<not> list_all (\<lambda>f. isValidFile (Filetype f)) files \<Longrightarrow>
   \<exists>ys f zs. files = ys @ f # zs \<and> list_all (\<lambda>g. isValidFile (Filetype g)) ys
     \<and> \<not> isValidFile (Filetype f)"
proof (induction files)
  case Nil
  then show ?case by simp
next
  case (Cons a files)
  show ?case
  proof (cases "isValidFile (Filetype a)")
    case False
    then have "a # files = [] @ a # files \<and> list_all (\<lambda>g. isValidFile (Filetype g)) []
      \<and> \<not> isValidFile (Filetype a)" by simp
    then show ?thesis by blast
  next
    case True
    with Cons.prems have "\<not> list_all (\<lambda>f. isValidFile (Filetype f)) files" by simp
    from Cons.IH[OF this] obtain ys f zs where
      h: "files = ys @ f # zs" "list_all (\<lambda>g. isValidFile (Filetype g)) ys"
         "\<not> isValidFile (Filetype f)" by blast
    with True have "a # files = (a # ys) @ f # zs
      \<and> list_all (\<lambda>g. isValidFile (Filetype g)) (a # ys) \<and> \<not> isValidFile (Filetype f)"
      by simp
    then show ?thesis by blast
  qed
qed

text \<open>
  C6. For every ordered list of attachments, validation returns the first attachment
  (in list order) whose declared type is not in the supported set, together with the
  validation error; when every type is supported it returns no error and the zero
  attachment.
\<close>

theorem C6_validateFiles_first_unsupported:
  "(list_all (\<lambda>f. isValidFile (Filetype f)) files \<longrightarrow>
      validateFiles files = (zero_File, None)) \<and>
   (\<forall>ys f zs. files = ys @ f # zs \<and> list_all (\<lambda>g. isValidFile (Filetype g)) ys \<and>
      \<not> isValidFile (Filetype f) \<longrightarrow> validateFiles files = (f, Some WrongFileType))"
  using validateFiles_all_valid validateFiles_first_invalid by blast

theorem C6_witness:
  "list_all (\<lambda>f. isValidFile (Filetype f)) [F1, F2] \<and>
   validateFiles [F1, F2] = (zero_File, None) \<and>
   \<not> isValidFile (Filetype F_png) \<and>
   validateFiles [F1, F_png, F2, F_png] = (F_png, Some WrongFileType)"
proof -
  have a: "list_all (\<lambda>f. isValidFile (Filetype f)) [F1, F2]"
    by (simp add: isValidFile_iff F1_def F2_def)
  have b: "\<not> isValidFile (Filetype F_png)"
    by (simp add: isValidFile_iff F_png_def)
  have c: "list_all (\<lambda>f. isValidFile (Filetype f)) [F1]"
    by (simp add: isValidFile_iff F1_def)
  have d: "[F1, F_png, F2, F_png] = [F1] @ F_png # [F2, F_png]" by simp
  from C6_validateFiles_first_unsupported[of "[F1, F2]"] a
  have e: "validateFiles [F1, F2] = (zero_File, None)" by blast
  from C6_validateFiles_first_unsupported[of "[F1, F_png, F2, F_png]"] b c d
  have f: "validateFiles [F1, F_png, F2, F_png] = (F_png, Some WrongFileType)" by blast
  from a b e f show ?thesis by blast
qed

section \<open>Resolution of paths\<close>

lemma split_on_nonempty: "split_on d s \<noteq> []"
  by (induction s) (auto split: list.splits)

lemma split_on_append: "split_on d (xs @ d # ys) = split_on d xs @ split_on d ys"
proof (induction xs)
  case Nil
  then show ?case by (simp)
next
  case (Cons x xs)
  then show ?case
    using split_on_nonempty[of d xs]
    by (cases "split_on d xs") (auto split: list.splits)
qed

lemma split_on_plain: "d \<notin> set c \<Longrightarrow> split_on d c = [c]"
  by (induction c) auto

lemma split_on_no_sep: "c \<in> set (split_on d s) \<Longrightarrow> d \<notin> set c"
proof (induction s arbitrary: c)
  case Nil
  then show ?case by simp
next
  case (Cons x s)
  then show ?case
    by (cases "x = d"; cases "split_on d s") (auto split: list.splits)
qed

lemma normalise_snoc: "plain c \<Longrightarrow> normalise (cs @ [c]) = normalise cs @ [c]"
  by (simp add: normalise_def plain_def)

lemma absolute_child: "p \<noteq> [] \<Longrightarrow> absolute cwd (p @ ''/'' @ c) = absolute cwd p @ CHR ''/'' # c"
  by (cases p) (simp_all add: absolute_def)

lemma locate_child:
  assumes "locate en p = Some a" "plain c"
  shows "locate en (p @ ''/'' @ c) = Some (a @ [c])"
proof -
  from assms(1) have p: "p \<noteq> []" by (auto simp: locate_def resolve_def split: if_splits)
  with assms(1) have a: "a = normalise (split_on CHR ''/'' (absolute (e_Getwd en) p))"
    by (simp add: locate_def resolve_def)
  have "split_on CHR ''/'' (absolute (e_Getwd en) p @ CHR ''/'' # c)
        = split_on CHR ''/'' (absolute (e_Getwd en) p) @ [c]"
    using assms(2) by (simp add: split_on_append split_on_plain plain_def)
  then have "locate en (p @ ''/'' @ c)
        = Some (normalise (split_on CHR ''/'' (absolute (e_Getwd en) p) @ [c]))"
    using p by (simp add: locate_def resolve_def absolute_child del: append.simps)
  with a assms(2) show ?thesis by (simp add: normalise_snoc)
qed

lemma locate_descend:
  "locate en p = Some a \<Longrightarrow> list_all plain comps \<Longrightarrow>
   locate en (p @ concat (map (\<lambda>c. ''/'' @ c) comps)) = Some (a @ comps)"
proof (induction comps arbitrary: p a)
  case Nil
  then show ?case by simp
next
  case (Cons c comps)
  from Cons.prems have c: "plain c" and cs: "list_all plain comps" by simp_all
  from locate_child[OF Cons.prems(1) c] have "locate en (p @ ''/'' @ c) = Some (a @ [c])" .
  from Cons.IH[OF this cs] show ?case by simp
qed

lemma clean_rel_plain:
  "clean_rel acc cs = Some comps \<Longrightarrow> list_all plain acc \<Longrightarrow>
   list_all (\<lambda>c. CHR ''/'' \<notin> set c) cs \<Longrightarrow> list_all plain comps"
proof (induction cs arbitrary: acc)
  case Nil
  then show ?case by (auto simp: list_all_iff)
next
  case (Cons c cs)
  show ?case
  proof (cases "c = [] \<or> c = ''.''")
    case True
    with Cons show ?thesis by auto
  next
    case False
    show ?thesis
    proof (cases "c = ''..''")
      case True
      with Cons.prems False obtain a acc' where acc: "acc = a # acc'" "clean_rel acc' cs = Some comps"
        by (cases acc) auto
      with Cons.prems have "list_all plain acc'" by simp
      from Cons.IH[OF acc(2) this] Cons.prems(3) show ?thesis by simp
    next
      case nd: False
      with False Cons.prems have r: "clean_rel (c # acc) cs = Some comps" by simp
      from False nd Cons.prems(3) have "plain c" by (simp add: plain_def)
      with Cons.prems(2) have "list_all plain (c # acc)" by simp
      from Cons.IH[OF r this] Cons.prems(3) show ?thesis by simp
    qed
  qed
qed

lemma entry_comps_plain:
  "clean_rel [] (split_on CHR ''/'' name) = Some comps \<Longrightarrow> list_all plain comps"
proof -
  assume a: "clean_rel [] (split_on CHR ''/'' name) = Some comps"
  have "list_all (\<lambda>c. CHR ''/'' \<notin> set c) (split_on CHR ''/'' name)"
    using split_on_no_sep by (auto simp: list_all_iff)
  from clean_rel_plain[OF a _ this] show ?thesis by simp
qed

lemma entry_target_inside:
  assumes "entry_target dest name = Some t" "locate en dest = Some d"
  shows "\<exists>comps. locate en t = Some (d @ comps)"
proof -
  from assms(1) obtain comps where
    c: "clean_rel [] (split_on CHR ''/'' name) = Some comps"
       "t = dest @ concat (map (\<lambda>c. ''/'' @ c) comps)"
    by (auto simp: entry_target_def split: option.splits)
  from locate_descend[OF assms(2) entry_comps_plain[OF c(1)]] c(2) show ?thesis by blast
qed

lemma staging_root_located: "\<exists>d. locate en (staging_root en f) = Some d"
  by (auto simp: staging_root_def os_TempDir_def locate_def resolve_def)

lemma extracted_dir_located:
  "locate en (staging_root en f) = Some d \<Longrightarrow>
   locate en (extracted_dir en f) = Some (d @ [''downloaded_template''])"
  using locate_child[of en "staging_root en f" d "''downloaded_template''"]
  by (simp add: extracted_dir_def plain_def)

section \<open>What each stage does\<close>

lemma request_effect:
  assumes "request en m ep b w = ((bs, code, r), w')"
  shows "fs w' = fs w \<and> (\<exists>evs. trace w' = trace w @ evs \<and> list_all quiet evs)
         \<and> (case r of None \<Rightarrow> True | Some e \<Rightarrow> early_error e)"
  using assms
  by (auto simp: request_def log_event_def Let_def split: option.splits prod.splits if_splits)

lemma downloadFile_effect:
  assumes "downloadFile en url w = (r, w')"
  shows "(\<exists>evs. trace w' = trace w @ evs \<and> list_all quiet evs)
         \<and> (case r of Inl e \<Rightarrow> early_error e | Inr tmp \<Rightarrow> path_exists en (fs w') tmp)"
proof -
  obtain bs code r0 w1 where rq: "request en ''GET'' url [] w = ((bs, code, r0), w1)"
    by (metis prod.exhaust)
  from request_effect[OF rq] obtain evs where
    e: "fs w1 = fs w" "trace w1 = trace w @ evs" "list_all quiet evs"
       "case r0 of None \<Rightarrow> True | Some e \<Rightarrow> early_error e" by blast
  show ?thesis
    using assms e
    by (auto simp: downloadFile_def rq log_event_def Let_def exists_at_def path_exists_def
                   node_at_def update_conv
             split: option.splits sum.splits if_splits)
qed

lemma extract_entries_effect:
  "extract_entries en dest es w = (r, w') \<Longrightarrow>
   trace w' = trace w \<and> (case r of Inl e \<Rightarrow> early_error e | Inr ns \<Rightarrow> True)"
proof (induction es arbitrary: w r w')
  case Nil
  then show ?case by auto
next
  case (Cons a es)
  obtain name data where a: "a = (name, data)" by (cases a)
  show ?case
  proof (cases "entry_target dest name")
    case None
    with Cons.prems a show ?thesis by auto
  next
    case (Some target)
    show ?thesis
    proof (cases "locate en target")
      case None
      with Cons.prems a Some show ?thesis by auto
    next
      case loc: (Some q)
      show ?thesis
      proof (cases "e_extract_fails en w target")
        case True
        with Cons.prems a Some loc show ?thesis by auto
      next
        case False
        obtain r1 w1 where rec:
          "extract_entries en dest es (w\<lparr>fs := write_file q data (fs w)\<rparr>) = (r1, w1)"
          by (metis prod.exhaust)
        from Cons.IH[OF rec] have ih: "trace w1 = trace w"
          "case r1 of Inl e \<Rightarrow> early_error e | Inr ns \<Rightarrow> True" by simp_all
        from Cons.prems a Some loc False rec ih show ?thesis
          by (auto split: sum.splits)
      qed
    qed
  qed
qed

text \<open>The extraction proper, when \<open>Unzip\<close> gets that far.\<close>

lemma Unzip_cases:
  assumes "Unzip en archive dest w = (r, w')"
  shows "(w' = log_event (EvUnzip archive dest) w \<and>
            (r = Inl MalformedArchive \<or> r = Inl (ExtractWriteError dest)))
       \<or> (\<exists>b entries d. node_at en (fs w) archive = Some (Regular b)
            \<and> e_zip_decode en b = Some entries \<and> locate en dest = Some d
            \<and> extract_entries en dest entries
                ((log_event (EvUnzip archive dest) w)\<lparr>fs := mkdir_all d (fs w)\<rparr>) = (r, w'))"
  using assms
  by (auto simp: Unzip_def log_event_def Let_def split: option.splits node.splits)

lemma Unzip_effect:
  assumes "Unzip en archive dest w = (r, w')"
  shows "trace w' = trace w @ [EvUnzip archive dest]
         \<and> (case r of Inl e \<Rightarrow> early_error e | Inr ns \<Rightarrow> True)"
proof -
  from Unzip_cases[OF assms] consider
    (stop) "w' = log_event (EvUnzip archive dest) w"
       "r = Inl MalformedArchive \<or> r = Inl (ExtractWriteError dest)"
  | (go) entries d where "extract_entries en dest entries
                ((log_event (EvUnzip archive dest) w)\<lparr>fs := mkdir_all d (fs w)\<rparr>) = (r, w')"
    by blast
  then show ?thesis
  proof cases
    case stop
    then show ?thesis by (auto simp: log_event_def)
  next
    case go
    from extract_entries_effect[OF go] show ?thesis by (simp add: log_event_def)
  qed
qed

lemma cmd_Run_effect:
  assumes "cmd_Run en name args w = (r, w')"
  shows "\<exists>out. trace w' = trace w @ [EvRun name args out]
           \<and> r = (if out = Exited 0 then None else Some (run_error out))"
proof -
  obtain fsys out where ex: "e_exec en w name args = (fsys, out)" by (metis prod.exhaust)
  show ?thesis
  proof (cases out)
    case (Exited n)
    with assms ex have "trace w' = trace w @ [EvRun name args (Exited n)]
        \<and> r = (if n = 0 then None else Some (ExitError n))"
      by (cases "n = 0") (auto simp: cmd_Run_def log_event_def)
    then have "trace w' = trace w @ [EvRun name args (Exited n)]
        \<and> r = (if Exited n = Exited 0 then None else Some (run_error (Exited n)))"
      by simp
    then show ?thesis by blast
  next
    case (NotStarted msg)
    with assms ex have "trace w' = trace w @ [EvRun name args (NotStarted msg)]
        \<and> r = Some (ExecError msg)"
      by (auto simp: cmd_Run_def log_event_def)
    then have "trace w' = trace w @ [EvRun name args (NotStarted msg)]
        \<and> r = (if NotStarted msg = Exited 0 then None else Some (run_error (NotStarted msg)))"
      by simp
    then show ?thesis by blast
  qed
qed

lemma deleteSrc_effect:
  assumes "deleteSrc en p w = (r, w')"
  shows "trace w' = trace w @ [EvRemoveAll p (r = None)]
         \<and> (r = None \<longrightarrow> (\<forall>q. locate en p = Some q \<longrightarrow> fs w' = remove_tree q (fs w)))
         \<and> (r = None \<longrightarrow> \<not> endsWithDot p)
         \<and> (case r of None \<Rightarrow> True | Some e \<Rightarrow> \<exists>m. e = RemoveAllError p m)"
  using assms
  by (auto simp: deleteSrc_def os_RemoveAll_def log_event_def locate_def resolve_def
                 endsWithDot_def
           split: option.splits prod.splits if_splits)

lemma Zip_effect:
  assumes "Zip en src target w = (r, w')"
  shows "(\<exists>ns. trace w' = trace w @ [EvZip src target ns]
            \<and> (\<forall>d. locate en src = Some d \<longrightarrow> ns = map fst (archive_entries d (fs w))))
         \<and> (case r of None \<Rightarrow> True | Some e \<Rightarrow> e = EmptyInputDir src \<or> e = ArchiveWriteError target)"
  using assms
  by (auto simp: Zip_def log_event_def Let_def split: if_splits option.splits)

lemma AttachFileTo_effect:
  assumes "AttachFileTo en ch p n w = (r, w')"
  shows "trace w' = trace w @ [EvAttachFileTo ch p n (r = None)] \<and> fs w' = fs w
         \<and> (case r of None \<Rightarrow> True | Some e \<Rightarrow> \<exists>m. e = AttachError m)"
  using assms
  by (auto simp: AttachFileTo_def log_event_def split: option.splits)

section \<open>The shape of a run of \<open>processFile\<close>\<close>

lemma archive_names_after_removal:
  assumes "n \<in> set (map fst (archive_entries d (remove_tree (d @ [c]) fsys)))"
  shows "\<not> prefix [c] n"
proof
  assume pc: "prefix [c] n"
  from assms obtain q b where
    q: "(q, Regular b) \<in> set (remove_tree (d @ [c]) fsys)"
       "prefix d q" "n = drop (length d) q"
    by (auto simp: archive_entries_def below_def split: node.splits)
  from q(2,3) have qn: "q = d @ n" by (auto simp: prefix_def)
  from pc have "prefix (d @ [c]) (d @ n)" by (auto simp: prefix_def)
  with q(1) qn show False by (auto simp: remove_tree_def)
qed

lemma built_after_removal_Nil: "built_after_removal en f []"
proof -
  obtain d where d: "locate en (staging_root en f) = Some d"
    using staging_root_located by blast
  have "[] = map fst (archive_entries d (remove_tree (d @ [''downloaded_template'']) []))"
    by (simp add: archive_entries_def below_def remove_tree_def)
  with d show ?thesis unfolding built_after_removal_def by blast
qed

lemma processFile_shape:
  assumes pf: "processFile en ch f w = ((rf, r), w')"
  shows "rf = f \<and> (\<exists>pre e. list_all quiet pre \<and> trace w' = trace w @ pre @ tail_events en ch f e
           \<and> ending_result en f e r
           \<and> (\<forall>n\<in>set (ending_names e). \<not> prefix [''downloaded_template''] n)
           \<and> built_after_removal en f (ending_names e))"
proof -
  let ?xd = "extracted_dir en f" and ?sr = "staging_root en f" and ?rp = "result_path en f"
  let ?P = "\<lambda>pre e. list_all quiet pre \<and> trace w' = trace w @ pre @ tail_events en ch f e
           \<and> ending_result en f e r
           \<and> (\<forall>n\<in>set (ending_names e). \<not> prefix [''downloaded_template''] n)
           \<and> built_after_removal en f (ending_names e)"
  obtain r1 w1 where s1: "downloadFile en (URLPrivate f) w = (r1, w1)" by (metis prod.exhaust)
  from downloadFile_effect[OF s1] obtain ev1 where
    t1: "trace w1 = trace w @ ev1" "list_all quiet ev1" and
    e1: "case r1 of Inl e \<Rightarrow> early_error e | Inr tmp \<Rightarrow> path_exists en (fs w1) tmp" by blast
  show ?thesis
  proof (cases r1)
    case (Inl e)
    with pf s1 have "rf = f" "r = Some e" "w' = w1" by (simp_all add: processFile_def)
    with t1 e1 Inl have "?P ev1 Early" by (simp add: built_after_removal_Nil)
    with \<open>rf = f\<close> show ?thesis by blast
  next
    case (Inr tmp)
    note d1 = s1[unfolded Inr]
    obtain r2 w2 where s2: "Unzip en tmp ?xd w1 = (r2, w2)" by (metis prod.exhaust)
    from Unzip_effect[OF s2] have
      t2: "trace w2 = trace w @ (ev1 @ [EvUnzip tmp ?xd])" and
      e2: "case r2 of Inl e \<Rightarrow> early_error e | Inr ns \<Rightarrow> True" by (simp_all add: t1)
    have q2: "list_all quiet (ev1 @ [EvUnzip tmp ?xd])" using t1 by simp
    show ?thesis
    proof (cases r2)
      case (Inl e)
      with pf d1 s2 have "rf = f" "r = Some e" "w' = w2" by (simp_all add: processFile_def)
      with t2 q2 e2 Inl have "?P (ev1 @ [EvUnzip tmp ?xd]) Early"
        by (simp add: built_after_removal_Nil)
      with \<open>rf = f\<close> show ?thesis by blast
    next
      case (Inr names)
      note d2 = s2[unfolded Inr]
      let ?pre = "ev1 @ [EvUnzip tmp ?xd]"
      obtain r3 w3 where s3: "cmd_Run en ''./scripts/themer/themer.phar''
             [''--path='' @ ?xd] w2 = (r3, w3)" by (metis prod.exhaust)
      from cmd_Run_effect[OF s3] obtain out where
        t3: "trace w3 = trace w @ ?pre @ [themer_event en f out]" and
        e3: "r3 = (if out = Exited 0 then None else Some (run_error out))"
        by (auto simp: t2 themer_event_def)
      show ?thesis
      proof (cases r3)
        case (Some e)
        with pf d1 d2 s3 have "rf = f" "r = Some e" "w' = w3" by (simp_all add: processFile_def)
        moreover from e3 Some have "out \<noteq> Exited 0" "e = run_error out"
          by (auto split: if_splits)
        ultimately have "?P ?pre (RunFailed out)" using t3 q2
          by (simp add: built_after_removal_Nil)
        with \<open>rf = f\<close> show ?thesis by blast
      next
        case None
        note d3 = s3[unfolded None]
        from e3 None have out0: "out = Exited 0" by (auto split: if_splits)
        obtain r4 w4 where s4: "deleteSrc en ?xd w3 = (r4, w4)" by (metis prod.exhaust)
        from deleteSrc_effect[OF s4] have
          t4: "trace w4 = trace w @ ?pre @ [themer_event en f (Exited 0), EvRemoveAll ?xd (r4 = None)]" and
          f4: "r4 = None \<longrightarrow> (\<forall>q. locate en ?xd = Some q \<longrightarrow> fs w4 = remove_tree q (fs w3))" and
          e4: "case r4 of None \<Rightarrow> True | Some e \<Rightarrow> \<exists>m. e = RemoveAllError ?xd m"
          by (simp_all add: t3 out0)
        show ?thesis
        proof (cases r4)
          case (Some e)
          with pf d1 d2 d3 s4 have "rf = f" "r = Some e" "w' = w4"
            by (simp_all add: processFile_def)
          moreover from e4 Some obtain m where "e = RemoveAllError ?xd m" by auto
          ultimately have "?P ?pre CleanFailed" using t4 q2 Some
            by (simp add: built_after_removal_Nil)
          with \<open>rf = f\<close> show ?thesis by blast
        next
          case None
          note d4 = s4[unfolded None]
          obtain d where d: "locate en ?sr = Some d" using staging_root_located by blast
          from f4 None extracted_dir_located[OF d]
          have fs4: "fs w4 = remove_tree (d @ [''downloaded_template'']) (fs w3)" by simp
          obtain r5 w5 where s5: "Zip en ?sr ?rp w4 = (r5, w5)" by (metis prod.exhaust)
          from Zip_effect[OF s5] d obtain ns where
            z5: "trace w5 = trace w4 @ [EvZip ?sr ?rp ns]"
                "ns = map fst (archive_entries d (fs w4))" and
            e5: "case r5 of None \<Rightarrow> True
                 | Some e \<Rightarrow> e = EmptyInputDir ?sr \<or> e = ArchiveWriteError ?rp"
            by auto
          let ?ns = ns
          have ns: "\<forall>n\<in>set ?ns. \<not> prefix [''downloaded_template''] n"
            using archive_names_after_removal[of _ d "''downloaded_template''" "fs w3"] z5(2) fs4
            by metis
          have bar: "built_after_removal en f ?ns"
            unfolding built_after_removal_def using d z5(2) fs4 by auto
          have t5: "trace w5 = trace w @ ?pre @ [themer_event en f (Exited 0),
                   EvRemoveAll ?xd True, zip_event en f ?ns]"
            using z5(1) t4 None by (simp add: zip_event_def)
          show ?thesis
          proof (cases r5)
            case (Some e)
            with pf d1 d2 d3 d4 s5 have "rf = f" "r = Some e" "w' = w5"
              by (simp_all add: processFile_def)
            with e5 Some t5 q2 ns bar have "?P ?pre (ZipFailed ?ns)" by simp
            with \<open>rf = f\<close> show ?thesis by blast
          next
            case None
            note d5 = s5[unfolded None]
            obtain r6 w6 where s6: "AttachFileTo en ch ?rp defaultResultFilename w5 = (r6, w6)"
              by (metis prod.exhaust)
            from AttachFileTo_effect[OF s6] have
              t6: "trace w6 = trace w @ ?pre @ [themer_event en f (Exited 0),
                     EvRemoveAll ?xd True, zip_event en f ?ns, attach_event en ch f (r6 = None)]" and
              e6: "case r6 of None \<Rightarrow> True | Some e \<Rightarrow> \<exists>m. e = AttachError m"
              by (simp_all add: t5 attach_event_def)
            show ?thesis
            proof (cases r6)
              case (Some e)
              with pf d1 d2 d3 d4 d5 s6 have "rf = f" "r = Some e" "w' = w6"
                by (simp_all add: processFile_def)
              moreover from e6 Some obtain m where "e = AttachError m" by auto
              ultimately have "?P ?pre (AttachFailed ?ns)" using t6 q2 ns bar Some by simp
              with \<open>rf = f\<close> show ?thesis by blast
            next
              case None
              note d6 = s6[unfolded None]
              obtain r7 w7 where s7: "deleteSrc en ?sr w6 = (r7, w7)" by (metis prod.exhaust)
              from deleteSrc_effect[OF s7] have
                t7: "trace w7 = trace w @ ?pre @ [themer_event en f (Exited 0),
                       EvRemoveAll ?xd True, zip_event en f ?ns, attach_event en ch f True,
                       EvRemoveAll ?sr (r7 = None)]" and
                e7: "case r7 of None \<Rightarrow> True | Some e \<Rightarrow> \<exists>m. e = RemoveAllError ?sr m"
                by (simp_all add: t6 None)
              show ?thesis
              proof (cases r7)
                case (Some e)
                with pf d1 d2 d3 d4 d5 d6 s7 have "rf = f" "r = Some e" "w' = w7"
                  by (simp_all add: processFile_def)
                moreover from e7 Some obtain m where "e = RemoveAllError ?sr m" by auto
                ultimately have "?P ?pre (TeardownFailed ?ns)" using t7 q2 ns bar Some by simp
                with \<open>rf = f\<close> show ?thesis by blast
              next
                case None
                with pf d1 d2 d3 d4 d5 d6 s7 have "rf = f" "r = None" "w' = w7"
                  by (simp_all add: processFile_def)
                with t7 q2 ns bar None have "?P ?pre (Completed ?ns)" by simp
                with \<open>rf = f\<close> show ?thesis by blast
              qed
            qed
          qed
        qed
      qed
    qed
  qed
qed

section \<open>Reading the trace of a run\<close>

lemma events_since_append: "trace w' = trace w @ evs \<Longrightarrow> events_since w w' = evs"
  by (simp add: events_since_def)

lemma quiet_no_uploads:
  "list_all quiet pre \<Longrightarrow> upload_calls (pre @ evs) = upload_calls evs
     \<and> uploads_done (pre @ evs) = uploads_done evs"
proof (induction pre)
  case Nil
  then show ?case by simp
next
  case (Cons a pre)
  then show ?case by (cases a) auto
qed

lemma quiet_not_member: "list_all quiet pre \<Longrightarrow> \<not> quiet z \<Longrightarrow> z \<notin> set pre"
  by (auto simp: list_all_iff)

lemma split_after_quiet:
  assumes "list_all quiet pre" "pre @ rest = xs @ z # ys" "\<not> quiet z"
  shows "\<exists>k. xs = pre @ k \<and> rest = k @ z # ys"
proof -
  from assms(2) consider (a) us where "pre = xs @ us" "us @ rest = z # ys"
    | (b) us where "pre @ us = xs" "rest = us @ z # ys"
    by (auto simp: append_eq_append_conv2)
  then show ?thesis
  proof cases
    case a
    show ?thesis
    proof (cases us)
      case Nil
      with a show ?thesis by auto
    next
      case (Cons u us')
      with a have "z \<in> set pre" by auto
      with quiet_not_member[OF assms(1) assms(3)] show ?thesis by blast
    qed
  next
    case b
    then show ?thesis by auto
  qed
qed

lemma processFile_trace:
  assumes "processFile en ch f w = ((rf, r), w')"
  shows "\<exists>pre e. list_all quiet pre \<and> events_since w w' = pre @ tail_events en ch f e
           \<and> ending_result en f e r
           \<and> (\<forall>n\<in>set (ending_names e). \<not> prefix [''downloaded_template''] n)
           \<and> built_after_removal en f (ending_names e)"
proof -
  from processFile_shape[OF assms] obtain pre e where
    h: "list_all quiet pre" "trace w' = trace w @ pre @ tail_events en ch f e"
       "ending_result en f e r"
       "\<forall>n\<in>set (ending_names e). \<not> prefix [''downloaded_template''] n"
       "built_after_removal en f (ending_names e)" by blast
  from events_since_append[OF h(2)] h(1,3,4,5) show ?thesis by blast
qed

lemma quiet_no_zip_attach:
  "list_all quiet pre \<Longrightarrow> \<not> list_ex is_zip pre \<and> \<not> list_ex is_attach pre"
proof (induction pre)
  case Nil
  then show ?case by simp
next
  case (Cons a pre)
  then show ?case by (cases a) auto
qed

lemma tail_run_nonzero:
  assumes "EvRun p a (Exited n) \<in> set (tail_events en ch f e)" "n \<noteq> 0"
    "ending_result en f e r"
  shows "r = Some (ExitError n) \<and> \<not> list_ex is_zip (tail_events en ch f e)
         \<and> \<not> list_ex is_attach (tail_events en ch f e)"
  using assms
  by (cases e) (auto simp: themer_event_def zip_event_def attach_event_def)

lemma tail_attach_after_run:
  assumes "list_ex is_attach (tail_events en ch f e)"
  shows "themer_event en f (Exited 0) \<in> set (tail_events en ch f e)"
  using assms
  by (cases e) (auto simp: themer_event_def zip_event_def attach_event_def)

text \<open>
  C4. For every attachment, if the external transformation program exits with a
  nonzero status, \<open>processFile\<close> returns the attachment with an error carrying that
  status, and neither the building of the result archive nor the upload is called; an
  upload is called only when the transformation exited with status zero.
\<close>

theorem C4_transform_failure_stops_pipeline:
  assumes "processFile en ch f w = ((rf, r), w')"
  shows "(\<forall>p a n. EvRun p a (Exited n) \<in> set (events_since w w') \<and> n \<noteq> 0 \<longrightarrow>
            rf = f \<and> r = Some (ExitError n)
            \<and> \<not> list_ex is_zip (events_since w w') \<and> \<not> list_ex is_attach (events_since w w'))
       \<and> (list_ex is_attach (events_since w w') \<longrightarrow>
            themer_event en f (Exited 0) \<in> set (events_since w w'))"
proof -
  from processFile_shape[OF assms] have rf: "rf = f" by simp
  from processFile_trace[OF assms] obtain pre e where
    h: "list_all quiet pre" "events_since w w' = pre @ tail_events en ch f e"
       "ending_result en f e r" by blast
  note nz = quiet_no_zip_attach[OF h(1)]
  have first: "rf = f \<and> r = Some (ExitError n)
            \<and> \<not> list_ex is_zip (events_since w w') \<and> \<not> list_ex is_attach (events_since w w')"
    if m: "EvRun p a (Exited n) \<in> set (events_since w w')" and n: "n \<noteq> 0" for p a n
  proof -
    have "EvRun p a (Exited n) \<notin> set pre"
      using quiet_not_member[OF h(1), of "EvRun p a (Exited n)"] by simp
    with m h(2) have "EvRun p a (Exited n) \<in> set (tail_events en ch f e)" by simp
    from tail_run_nonzero[OF this n h(3)] nz rf h(2) show ?thesis by simp
  qed
  have second: "themer_event en f (Exited 0) \<in> set (events_since w w')"
    if "list_ex is_attach (events_since w w')"
  proof -
    from that h(2) nz have "list_ex is_attach (tail_events en ch f e)" by simp
    from tail_attach_after_run[OF this] h(2) show ?thesis by simp
  qed
  from first second show ?thesis by blast
qed

theorem C4_witness:
  "EvRun ''./scripts/themer/themer.phar'' [''--path=/tmpF1/downloaded_template''] (Exited 2)
     \<in> set (events_since w0 (snd (processFile env_exit2 ''C1'' F1 w0))) \<and>
   fst (processFile env_exit2 ''C1'' F1 w0) = (F1, Some (ExitError 2)) \<and>
   \<not> list_ex is_zip (events_since w0 (snd (processFile env_exit2 ''C1'' F1 w0))) \<and>
   \<not> list_ex is_attach (events_since w0 (snd (processFile env_exit2 ''C1'' F1 w0))) \<and>
   list_ex is_attach (events_since w0 (snd (processFile env0 ''C1'' F1 w0))) \<and>
   themer_event env0 F1 (Exited 0) \<in> set (events_since w0 (snd (processFile env0 ''C1'' F1 w0)))"
proof -
  let ?X = "processFile env_exit2 ''C1'' F1 w0"
  let ?Y = "processFile env0 ''C1'' F1 w0"
  have x: "?X = ((fst (fst ?X), snd (fst ?X)), snd ?X)" by simp
  have y: "?Y = ((fst (fst ?Y), snd (fst ?Y)), snd ?Y)" by simp
  have a: "EvRun ''./scripts/themer/themer.phar'' [''--path=/tmpF1/downloaded_template''] (Exited 2)
     \<in> set (events_since w0 (snd ?X))" by code_simp
  have b: "list_ex is_attach (events_since w0 (snd ?Y))" by code_simp
  from C4_transform_failure_stops_pipeline[OF x] a
  have c: "fst (fst ?X) = F1 \<and> snd (fst ?X) = Some (ExitError 2)
      \<and> \<not> list_ex is_zip (events_since w0 (snd ?X)) \<and> \<not> list_ex is_attach (events_since w0 (snd ?X))"
    by (metis zero_neq_numeral)
  then have c': "fst ?X = (F1, Some (ExitError 2))" by (metis prod.collapse)
  from C4_transform_failure_stops_pipeline[OF y] b
  have d: "themer_event env0 F1 (Exited 0) \<in> set (events_since w0 (snd ?Y))" by blast
  from a b c c' d show ?thesis by blast
qed

section \<open>Validation before any processing\<close>

text \<open>
  C7. For every batch that holds at least one attachment with an unsupported type,
  \<open>processFiles\<close> fails at validation with the validation error and processes no
  attachment: the world is returned as it was, so no request, download or any other
  call was made for any attachment of the batch.
\<close>

theorem C7_invalid_batch_processes_nothing:
  assumes "f \<in> set (Files message)" "\<not> isValidFile (Filetype f)"
  shows "\<exists>g. g \<in> set (Files message) \<and> \<not> isValidFile (Filetype g)
          \<and> processFiles en message w = ((g, Some WrongFileType), w)
          \<and> events_since w (snd (processFiles en message w)) = []"
proof -
  from assms have "\<not> list_all (\<lambda>f. isValidFile (Filetype f)) (Files message)"
    by (auto simp: list_all_iff)
  from first_invalid_split[OF this] obtain ys g zs where
    h: "Files message = ys @ g # zs" "list_all (\<lambda>g. isValidFile (Filetype g)) ys"
       "\<not> isValidFile (Filetype g)" by blast
  from validateFiles_first_invalid[OF h(2,3)] h(1)
  have v: "validateFiles (Files message) = (g, Some WrongFileType)" by simp
  then have p: "processFiles en message w = ((g, Some WrongFileType), w)"
    by (simp add: processFiles_def)
  from h(1) have "g \<in> set (Files message)" by simp
  with h(3) p show ?thesis by (auto simp: events_since_def)
qed

theorem C7_witness:
  "F_png \<in> set (Files \<lparr>Channel = ''C1'', Files = [F1, F_png, F2]\<rparr>) \<and>
   \<not> isValidFile (Filetype F_png) \<and>
   processFiles env0 \<lparr>Channel = ''C1'', Files = [F1, F_png, F2]\<rparr> w0 = ((F_png, Some WrongFileType), w0)"
proof -
  let ?m = "\<lparr>Channel = ''C1'', Files = [F1, F_png, F2]\<rparr>"
  have a: "F_png \<in> set (Files ?m)" by simp
  have b: "\<not> isValidFile (Filetype F_png)" by (simp add: isValidFile_iff F_png_def)
  from C7_invalid_batch_processes_nothing[OF a b, of env0 w0] obtain g where
    g: "g \<in> set (Files ?m)" "\<not> isValidFile (Filetype g)"
       "processFiles env0 ?m w0 = ((g, Some WrongFileType), w0)" by blast
  have "isValidFile (Filetype F1)" "isValidFile (Filetype F2)"
    by (simp_all add: isValidFile_iff F1_def F2_def)
  with g(1,2) have "g = F_png" by auto
  with a b g(3) show ?thesis by simp
qed

section \<open>The request method\<close>

text \<open>
  C9, as amended. \<open>request\<close> returns a non-nil error exactly when the request cannot
  be built, the transport hands back no response, reading the body of the response
  fails, or the status code of the response is at least 400. In particular every
  response with a status code of 400 or more is a failure. An error the transport
  reports together with a response is not looked at.
\<close>

theorem C9_request_error_conditions:
  "(snd (snd (fst (request en m ep b w))) \<noteq> None) =
   ((\<exists>msg. e_NewRequest en m (e_BaseURL en @ ep) = Some msg) \<or>
    (case fst (e_Do en w m (e_BaseURL en @ ep) b) of
       None \<Rightarrow> True
     | Some resp \<Rightarrow> (\<exists>msg. snd (Body resp) = Some msg) \<or> StatusCode resp \<ge> 400))"
  by (auto simp: request_def Let_def split: option.splits prod.splits)

theorem C9_witness:
  "snd (snd (fst (request env_404 ''GET'' ''http://x/a.zip'' [] w0))) \<noteq> None \<and>
   StatusCode (the (fst (e_Do env_404 w0 ''GET'' (e_BaseURL env_404 @ ''http://x/a.zip'') []))) = 404"
proof -
  have a: "fst (e_Do env_404 w0 ''GET'' (e_BaseURL env_404 @ ''http://x/a.zip'') [])
      = Some \<lparr>StatusCode = 404, Body = (''no'', None)\<rparr>"
    by (simp add: env_404_def env0_def)
  have "snd (snd (fst (request env_404 ''GET'' ''http://x/a.zip'' [] w0))) \<noteq> None"
    unfolding C9_request_error_conditions[of env_404 "''GET''" "''http://x/a.zip''" "[]" w0] a by simp
  with a show ?thesis by simp
qed

text \<open>
  C9 as stated fails: when the transport reports an error together with a response
  whose body reads and whose status is below 400, \<open>request\<close> returns no error.
\<close>

theorem C9_counterexample:
  "\<not> ((snd (snd (fst (request env_redirect ''GET'' ''http://x/a.zip'' [] w0))) \<noteq> None) =
      (snd (e_Do env_redirect w0 ''GET'' (e_BaseURL env_redirect @ ''http://x/a.zip'') []) \<noteq> None \<or>
       (\<exists>resp. fst (e_Do env_redirect w0 ''GET'' (e_BaseURL env_redirect @ ''http://x/a.zip'') []) = Some resp
           \<and> StatusCode resp \<ge> 400)))"
  by (simp add: request_def env_redirect_def env0_def Let_def)

section \<open>Uploads of a batch\<close>

lemma uploads_append:
  "upload_calls (xs @ ys) = upload_calls xs @ upload_calls ys
   \<and> uploads_done (xs @ ys) = uploads_done xs @ uploads_done ys"
proof (induction xs)
  case Nil
  then show ?case by simp
next
  case (Cons a xs)
  then show ?case by (cases a) auto
qed

lemma early_error_kind:
  "early_error e \<Longrightarrow> \<not> teardown_error en f (Some e) \<and> \<not> attach_failed (Some e)"
  by (cases e) auto

lemma run_error_kind:
  "\<not> teardown_error en f (Some (run_error out)) \<and> \<not> attach_failed (Some (run_error out))"
  by (cases out) auto

lemma extracted_dir_not_root: "extracted_dir en f \<noteq> staging_root en f"
  by (simp add: extracted_dir_def)

lemma tail_uploads:
  assumes "ending_result en f e r"
  shows "uploads_done (tail_events en ch f e) =
           (if r = None \<or> teardown_error en f r then [upload_of en ch f] else [])
       \<and> upload_calls (tail_events en ch f e) =
           (if r = None \<or> teardown_error en f r \<or> attach_failed r then [upload_of en ch f] else [])"
proof (cases e)
  case Early
  with assms show ?thesis by (auto simp: early_error_kind split: option.splits)
next
  case (RunFailed out)
  with assms show ?thesis by (auto simp: run_error_kind themer_event_def)
next
  case CleanFailed
  with assms show ?thesis
    by (auto simp: themer_event_def extracted_dir_not_root split: option.splits error.splits)
next
  case (ZipFailed ns)
  with assms show ?thesis by (auto simp: themer_event_def zip_event_def)
next
  case (AttachFailed ns)
  with assms show ?thesis
    by (auto simp: themer_event_def zip_event_def attach_event_def upload_of_def
             split: option.splits error.splits)
next
  case (TeardownFailed ns)
  with assms show ?thesis
    by (auto simp: themer_event_def zip_event_def attach_event_def upload_of_def
             split: option.splits error.splits)
next
  case (Completed ns)
  with assms show ?thesis
    by (auto simp: themer_event_def zip_event_def attach_event_def upload_of_def)
qed

lemma processFile_uploads:
  assumes "processFile en ch f w = ((rf, r), w')"
  shows "rf = f \<and> (\<exists>evs. trace w' = trace w @ evs
       \<and> uploads_done evs =
           (if r = None \<or> teardown_error en f r then [upload_of en ch f] else [])
       \<and> upload_calls evs =
           (if r = None \<or> teardown_error en f r \<or> attach_failed r then [upload_of en ch f] else []))"
proof -
  from processFile_shape[OF assms] obtain pre e where
    h: "rf = f" "list_all quiet pre" "trace w' = trace w @ pre @ tail_events en ch f e"
       "ending_result en f e r" by blast
  from quiet_no_uploads[OF h(2)] tail_uploads[OF h(4)]
  have "uploads_done (pre @ tail_events en ch f e) =
           (if r = None \<or> teardown_error en f r then [upload_of en ch f] else [])
       \<and> upload_calls (pre @ tail_events en ch f e) =
           (if r = None \<or> teardown_error en f r \<or> attach_failed r then [upload_of en ch f] else [])"
    by simp
  with h(1,3) show ?thesis by blast
qed

lemma processEach_uploads:
  "processEach en ch files w = ((rf, r), w') \<Longrightarrow>
   \<exists>evs. trace w' = trace w @ evs \<and>
     (r = None \<longrightarrow> uploads_done evs = map (upload_of en ch) files
         \<and> upload_calls evs = map (upload_of en ch) files) \<and>
     (r \<noteq> None \<longrightarrow> (\<exists>ys zs. files = ys @ rf # zs
         \<and> uploads_done evs = map (upload_of en ch) ys @
             (if teardown_error en rf r then [upload_of en ch rf] else [])
         \<and> upload_calls evs = map (upload_of en ch) ys @
             (if teardown_error en rf r \<or> attach_failed r then [upload_of en ch rf] else [])))"
proof (induction files arbitrary: w)
  case Nil
  then show ?case by simp
next
  case (Cons f rest)
  obtain rf1 r1 w1 where s1: "processFile en ch f w = ((rf1, r1), w1)"
    by (metis prod.exhaust)
  from processFile_uploads[OF s1] obtain ev1 where
    u1: "rf1 = f" "trace w1 = trace w @ ev1"
        "uploads_done ev1 = (if r1 = None \<or> teardown_error en f r1 then [upload_of en ch f] else [])"
        "upload_calls ev1 =
           (if r1 = None \<or> teardown_error en f r1 \<or> attach_failed r1 then [upload_of en ch f] else [])"
    by blast
  show ?case
  proof (cases r1)
    case (Some e)
    with Cons.prems s1 have eq: "rf = f" "r = Some e" "w' = w1" using u1(1) by simp_all
    have "f # rest = [] @ rf # rest" using eq by simp
    moreover have "uploads_done ev1 = map (upload_of en ch) [] @
             (if teardown_error en rf r then [upload_of en ch rf] else [])"
      using u1(3) eq Some by simp
    moreover have "upload_calls ev1 = map (upload_of en ch) [] @
             (if teardown_error en rf r \<or> attach_failed r then [upload_of en ch rf] else [])"
      using u1(4) eq Some by simp
    ultimately have "\<exists>ys zs. f # rest = ys @ rf # zs
         \<and> uploads_done ev1 = map (upload_of en ch) ys @
             (if teardown_error en rf r then [upload_of en ch rf] else [])
         \<and> upload_calls ev1 = map (upload_of en ch) ys @
             (if teardown_error en rf r \<or> attach_failed r then [upload_of en ch rf] else [])"
      by blast
    with eq u1(2) show ?thesis by blast
  next
    case None
    with Cons.prems s1 have rec: "processEach en ch rest w1 = ((rf, r), w')" by simp
    from Cons.IH[OF rec] obtain ev2 where
      i: "trace w' = trace w1 @ ev2"
         "r = None \<longrightarrow> uploads_done ev2 = map (upload_of en ch) rest
             \<and> upload_calls ev2 = map (upload_of en ch) rest"
         "r \<noteq> None \<longrightarrow> (\<exists>ys zs. rest = ys @ rf # zs
            \<and> uploads_done ev2 = map (upload_of en ch) ys @
               (if teardown_error en rf r then [upload_of en ch rf] else [])
            \<and> upload_calls ev2 = map (upload_of en ch) ys @
               (if teardown_error en rf r \<or> attach_failed r then [upload_of en ch rf] else []))"
      by blast
    from u1(3,4) None have one: "uploads_done ev1 = [upload_of en ch f]"
      "upload_calls ev1 = [upload_of en ch f]" by simp_all
    have t: "trace w' = trace w @ (ev1 @ ev2)" using i(1) u1(2) by simp
    have a: "r = None \<longrightarrow> uploads_done (ev1 @ ev2) = map (upload_of en ch) (f # rest)
             \<and> upload_calls (ev1 @ ev2) = map (upload_of en ch) (f # rest)"
      using i(2) one by (simp add: uploads_append)
    have b: "r \<noteq> None \<longrightarrow> (\<exists>ys zs. f # rest = ys @ rf # zs
            \<and> uploads_done (ev1 @ ev2) = map (upload_of en ch) ys @
               (if teardown_error en rf r then [upload_of en ch rf] else [])
            \<and> upload_calls (ev1 @ ev2) = map (upload_of en ch) ys @
               (if teardown_error en rf r \<or> attach_failed r then [upload_of en ch rf] else []))"
    proof
      assume "r \<noteq> None"
      with i(3) obtain ys zs where y: "rest = ys @ rf # zs"
        "uploads_done ev2 = map (upload_of en ch) ys @
               (if teardown_error en rf r then [upload_of en ch rf] else [])"
        "upload_calls ev2 = map (upload_of en ch) ys @
               (if teardown_error en rf r \<or> attach_failed r then [upload_of en ch rf] else [])"
        by blast
      have "f # rest = (f # ys) @ rf # zs" using y(1) by simp
      moreover have "uploads_done (ev1 @ ev2) = map (upload_of en ch) (f # ys) @
               (if teardown_error en rf r then [upload_of en ch rf] else [])"
        using one y(2) by (simp add: uploads_append)
      moreover have "upload_calls (ev1 @ ev2) = map (upload_of en ch) (f # ys) @
               (if teardown_error en rf r \<or> attach_failed r then [upload_of en ch rf] else [])"
        using one y(3) by (simp add: uploads_append)
      ultimately show "\<exists>ys zs. f # rest = ys @ rf # zs
            \<and> uploads_done (ev1 @ ev2) = map (upload_of en ch) ys @
               (if teardown_error en rf r then [upload_of en ch rf] else [])
            \<and> upload_calls (ev1 @ ev2) = map (upload_of en ch) ys @
               (if teardown_error en rf r \<or> attach_failed r then [upload_of en ch rf] else [])"
        by blast
    qed
    from t a b show ?thesis by blast
  qed
qed

text \<open>
  C3, as amended. For every batch in which all attachments have a supported type: when
  \<open>processFiles\<close> returns no error, exactly one upload was called per attachment, in
  the order of the batch, and each succeeded. When it returns an error with the
  attachment that failed, the attachments before the failing one were uploaded, once
  each and in order, and nothing was uploaded for any attachment after it; the
  failing attachment itself was uploaded exactly when its failure is that of the final
  removal of its staging root, which comes after its upload; an upload was called for
  it, without success, when the failure is that of the upload.
\<close>

theorem C3_uploads_in_order_until_failure:
  assumes "list_all (\<lambda>f. isValidFile (Filetype f)) (Files message)"
    and "processFiles en message w = ((rf, r), w')"
  shows "(r = None \<longrightarrow>
            upload_calls (events_since w w') = map (upload_of en (Channel message)) (Files message)
          \<and> uploads_done (events_since w w') = map (upload_of en (Channel message)) (Files message))
       \<and> (r \<noteq> None \<longrightarrow> (\<exists>ys zs. Files message = ys @ rf # zs
          \<and> uploads_done (events_since w w') = map (upload_of en (Channel message)) ys @
               (if teardown_error en rf r then [upload_of en (Channel message) rf] else [])
          \<and> upload_calls (events_since w w') = map (upload_of en (Channel message)) ys @
               (if teardown_error en rf r \<or> attach_failed r
                then [upload_of en (Channel message) rf] else [])))"
proof -
  from validateFiles_all_valid[OF assms(1)] assms(2)
  have "processEach en (Channel message) (Files message) w = ((rf, r), w')"
    by (simp add: processFiles_def)
  from processEach_uploads[OF this] obtain evs where
    e: "trace w' = trace w @ evs"
     "r = None \<longrightarrow> uploads_done evs = map (upload_of en (Channel message)) (Files message)
         \<and> upload_calls evs = map (upload_of en (Channel message)) (Files message)"
     "r \<noteq> None \<longrightarrow> (\<exists>ys zs. Files message = ys @ rf # zs
         \<and> uploads_done evs = map (upload_of en (Channel message)) ys @
             (if teardown_error en rf r then [upload_of en (Channel message) rf] else [])
         \<and> upload_calls evs = map (upload_of en (Channel message)) ys @
             (if teardown_error en rf r \<or> attach_failed r
              then [upload_of en (Channel message) rf] else []))"
    by blast
  from events_since_append[OF e(1)] have "events_since w w' = evs" .
  with e(2,3) show ?thesis by simp
qed

theorem C3_witness:
  "list_all (\<lambda>f. isValidFile (Filetype f)) (Files msg12) \<and>
   snd (fst (processFiles env0 msg12 w0)) = None \<and>
   uploads_done (events_since w0 (snd (processFiles env0 msg12 w0))) =
     [(''C1'', ''/tmpF1/result.zip'', ''result.zip''), (''C1'', ''/tmpF2/result.zip'', ''result.zip'')] \<and>
   fst (processFiles env_second_fails msg12 w0) = (F2, Some (ExitError 2)) \<and>
   uploads_done (events_since w0 (snd (processFiles env_second_fails msg12 w0))) =
     [(''C1'', ''/tmpF1/result.zip'', ''result.zip'')]"
proof -
  let ?X = "processFiles env0 msg12 w0"
  let ?Y = "processFiles env_second_fails msg12 w0"
  have v: "list_all (\<lambda>f. isValidFile (Filetype f)) (Files msg12)"
    by (simp add: msg12_def F1_def F2_def isValidFile_iff)
  have x: "?X = ((fst (fst ?X), snd (fst ?X)), snd ?X)" by simp
  have y: "?Y = ((fst (fst ?Y), snd (fst ?Y)), snd ?Y)" by simp
  have rx: "snd (fst ?X) = None" by code_simp
  have ry: "fst ?Y = (F2, Some (ExitError 2))" by code_simp
  have u1: "map (upload_of env0 (Channel msg12)) (Files msg12) =
     [(''C1'', ''/tmpF1/result.zip'', ''result.zip''), (''C1'', ''/tmpF2/result.zip'', ''result.zip'')]"
    by code_simp
  from C3_uploads_in_order_until_failure[OF v x] rx u1
  have a: "uploads_done (events_since w0 (snd ?X)) =
     [(''C1'', ''/tmpF1/result.zip'', ''result.zip''), (''C1'', ''/tmpF2/result.zip'', ''result.zip'')]"
    by simp
  from ry have ry': "fst (fst ?Y) = F2" "snd (fst ?Y) = Some (ExitError 2)" by simp_all
  from C3_uploads_in_order_until_failure[OF v y] ry' obtain ys zs where
    d: "Files msg12 = ys @ F2 # zs"
       "uploads_done (events_since w0 (snd ?Y)) = map (upload_of env_second_fails (Channel msg12)) ys @
          (if teardown_error env_second_fails F2 (Some (ExitError 2))
           then [upload_of env_second_fails (Channel msg12) F2] else [])"
    by auto
  have ne: "F1 \<noteq> F2" by (simp add: F1_def F2_def)
  from d(1) ne have "ys = [F1]"
    by (auto simp: msg12_def Cons_eq_append_conv)
  moreover have "upload_of env_second_fails (Channel msg12) F1 = (''C1'', ''/tmpF1/result.zip'', ''result.zip'')"
    by code_simp
  ultimately have b: "uploads_done (events_since w0 (snd ?Y)) = [(''C1'', ''/tmpF1/result.zip'', ''result.zip'')]"
    using d(2) by simp
  from v rx a ry b show ?thesis by blast
qed

text \<open>
  C3 as stated fails: when the final removal of the staging root of the first
  attachment fails, \<open>processFiles\<close> returns that attachment with the error, and the
  attachment has been uploaded; the attachments strictly before it are none.
\<close>

theorem C3_counterexample:
  "list_all (\<lambda>f. isValidFile (Filetype f)) (Files msg12) \<and>
   fst (processFiles env_teardown_fails msg12 w0)
     = (F1, Some (RemoveAllError ''/tmpF1'' ''permission denied'')) \<and>
   uploads_done (events_since w0 (snd (processFiles env_teardown_fails msg12 w0)))
     = [upload_of env_teardown_fails ''C1'' F1] \<and>
   \<not> (\<exists>ys zs. Files msg12 = ys @ F1 # zs \<and>
        uploads_done (events_since w0 (snd (processFiles env_teardown_fails msg12 w0)))
          = map (upload_of env_teardown_fails ''C1'') ys)"
proof -
  let ?X = "processFiles env_teardown_fails msg12 w0"
  have v: "list_all (\<lambda>f. isValidFile (Filetype f)) (Files msg12)"
    by (simp add: msg12_def F1_def F2_def isValidFile_iff)
  have a: "fst ?X = (F1, Some (RemoveAllError ''/tmpF1'' ''permission denied''))" by code_simp
  have b: "uploads_done (events_since w0 (snd ?X)) = [upload_of env_teardown_fails ''C1'' F1]"
    by code_simp
  have ne: "F1 \<noteq> F2" by (simp add: F1_def F2_def)
  have c: "\<not> (\<exists>ys zs. Files msg12 = ys @ F1 # zs \<and>
        uploads_done (events_since w0 (snd ?X)) = map (upload_of env_teardown_fails ''C1'') ys)"
  proof
    assume "\<exists>ys zs. Files msg12 = ys @ F1 # zs \<and>
        uploads_done (events_since w0 (snd ?X)) = map (upload_of env_teardown_fails ''C1'') ys"
    then obtain ys zs where d: "Files msg12 = ys @ F1 # zs"
      "uploads_done (events_since w0 (snd ?X)) = map (upload_of env_teardown_fails ''C1'') ys"
      by blast
    from d(1) ne have "ys = []" by (auto simp: msg12_def Cons_eq_append_conv)
    with d(2) b show False by simp
  qed
  from v a b c show ?thesis by blast
qed

section \<open>What a run leaves on the filesystem\<close>

lemma map_of_remove_tree:
  "map_of (remove_tree p fsys) q = (if prefix p q then None else map_of fsys q)"
  by (induction fsys) (auto simp: remove_tree_def)

lemma map_of_remove_nodes:
  "map_of (remove_nodes ps fsys) q = (if q \<in> set ps then None else map_of fsys q)"
  by (induction fsys) (auto simp: remove_nodes_def)

lemma map_of_mkdirs:
  "map_of (mkdirs ds fsys) q =
     (case map_of fsys q of Some v \<Rightarrow> Some v
      | None \<Rightarrow> if q \<in> set ds then Some Directory else None)"
proof (induction ds arbitrary: fsys)
  case Nil
  then show ?case by (simp split: option.splits)
next
  case (Cons d ds)
  show ?case
    by (auto simp: Cons.IH exists_at_def map_add_def split: option.splits)
qed

lemma map_of_write_file:
  "map_of (write_file p b fsys) q =
     (if q = p then Some (Regular b) else map_of (mkdirs (parents p) fsys) q)"
  by (simp add: write_file_def update_conv)

lemma exists_write_file: "exists_at fsys q \<Longrightarrow> exists_at (write_file p b fsys) q"
  by (auto simp: exists_at_def map_of_write_file map_of_mkdirs)

lemma exists_mkdirs: "exists_at fsys q \<Longrightarrow> exists_at (mkdirs ds fsys) q"
  by (auto simp: exists_at_def map_of_mkdirs)

lemma path_exists_located:
  "path_exists en fsys p \<longleftrightarrow> (\<exists>q. locate en p = Some q \<and> exists_at fsys q)"
  by (auto simp: path_exists_def node_at_def exists_at_def split: option.splits)

lemma extract_entries_keeps:
  "extract_entries en dest es w = (r, w') \<Longrightarrow> exists_at (fs w) q \<Longrightarrow> exists_at (fs w') q"
proof (induction es arbitrary: w r w')
  case Nil
  then show ?case by simp
next
  case (Cons a es)
  obtain name data where a: "a = (name, data)" by (cases a)
  show ?case
  proof (cases "entry_target dest name")
    case None
    with Cons.prems a show ?thesis by simp
  next
    case (Some target)
    show ?thesis
    proof (cases "locate en target")
      case None
      with Cons.prems a Some show ?thesis by simp
    next
      case loc: (Some t)
      show ?thesis
      proof (cases "e_extract_fails en w target")
        case True
        with Cons.prems a Some loc show ?thesis by simp
      next
        case False
        obtain r1 w1 where rec:
          "extract_entries en dest es (w\<lparr>fs := write_file t data (fs w)\<rparr>) = (r1, w1)"
          by (metis prod.exhaust)
        have "exists_at (fs (w\<lparr>fs := write_file t data (fs w)\<rparr>)) q"
          using Cons.prems(2) by (simp add: exists_write_file)
        from Cons.IH[OF rec this] have "exists_at (fs w1) q" .
        moreover from Cons.prems(1) a Some loc False rec have "w' = w1"
          by (auto split: sum.splits)
        ultimately show ?thesis by simp
      qed
    qed
  qed
qed

lemma Unzip_keeps:
  assumes "Unzip en archive dest w = (r, w')" "exists_at (fs w) q"
  shows "exists_at (fs w') q"
proof -
  from Unzip_cases[OF assms(1)] consider
    (stop) "w' = log_event (EvUnzip archive dest) w"
  | (go) entries d where "extract_entries en dest entries
                ((log_event (EvUnzip archive dest) w)\<lparr>fs := mkdir_all d (fs w)\<rparr>) = (r, w')"
    by blast
  then show ?thesis
  proof cases
    case stop
    with assms(2) show ?thesis by (simp add: log_event_def)
  next
    case go
    have "exists_at (fs ((log_event (EvUnzip archive dest) w)\<lparr>fs := mkdir_all d (fs w)\<rparr>)) q"
      using assms(2) by (simp add: mkdir_all_def exists_mkdirs)
    from extract_entries_keeps[OF go this] show ?thesis .
  qed
qed

lemma cmd_Run_keeps:
  assumes "cmd_Run en name args w = (r, w')" "exists_at (fs w) q"
    and "\<forall>w n a. exists_at (fs w) q \<longrightarrow> exists_at (fst (e_exec en w n a)) q"
  shows "exists_at (fs w') q"
proof -
  obtain fsys out where ex: "e_exec en w name args = (fsys, out)" by (metis prod.exhaust)
  with assms(2,3) have k: "exists_at fsys q" by (metis fst_conv)
  show ?thesis
  proof (cases out)
    case (Exited n)
    with assms(1) ex k show ?thesis
      by (cases "n = 0") (auto simp: cmd_Run_def log_event_def)
  next
    case (NotStarted msg)
    with assms(1,2) ex show ?thesis by (auto simp: cmd_Run_def log_event_def)
  qed
qed

lemma deleteSrc_keeps:
  assumes "deleteSrc en p w = (r, w')" "exists_at (fs w) q" "\<not> inside en p q"
  shows "exists_at (fs w') q"
  using assms
  by (auto simp: deleteSrc_def os_RemoveAll_def log_event_def exists_at_def inside_def
                 map_of_remove_tree map_of_remove_nodes
           split: option.splits prod.splits if_splits)

lemma Zip_keeps:
  assumes "Zip en src target w = (r, w')" "exists_at (fs w) q"
  shows "exists_at (fs w') q"
  using assms
  by (auto simp: Zip_def log_event_def Let_def exists_write_file split: if_splits option.splits)

lemma AttachFileTo_keeps:
  assumes "AttachFileTo en ch p n w = (r, w')" "exists_at (fs w) q"
  shows "exists_at (fs w') q"
  using assms AttachFileTo_effect by metis

lemma inside_extracted_dir:
  "inside en (extracted_dir en f) q \<Longrightarrow> inside en (staging_root en f) q"
proof -
  assume a: "inside en (extracted_dir en f) q"
  obtain d where d: "locate en (staging_root en f) = Some d"
    using staging_root_located by blast
  from a extracted_dir_located[OF d] have "prefix (d @ [''downloaded_template'']) q"
    by (simp add: inside_def)
  then have "prefix d q" by (auto simp: prefix_def)
  with d show ?thesis by (simp add: inside_def)
qed

lemma processFile_keeps_outside:
  assumes dl: "downloadFile en (URLPrivate f) w = (Inr tmp, w1)"
    and k1: "exists_at (fs w1) q"
    and out: "\<not> inside en (staging_root en f) q"
    and prog: "\<forall>w n a. exists_at (fs w) q \<longrightarrow> exists_at (fst (e_exec en w n a)) q"
  shows "exists_at (fs (snd (processFile en ch f w))) q"
proof -
  let ?xd = "extracted_dir en f" and ?sr = "staging_root en f" and ?rp = "result_path en f"
  have out': "\<not> inside en ?xd q" using out inside_extracted_dir by blast
  obtain r2 w2 where s2: "Unzip en tmp ?xd w1 = (r2, w2)" by (metis prod.exhaust)
  obtain r3 w3 where s3: "cmd_Run en ''./scripts/themer/themer.phar''
             [''--path='' @ ?xd] w2 = (r3, w3)" by (metis prod.exhaust)
  obtain r4 w4 where s4: "deleteSrc en ?xd w3 = (r4, w4)" by (metis prod.exhaust)
  obtain r5 w5 where s5: "Zip en ?sr ?rp w4 = (r5, w5)" by (metis prod.exhaust)
  obtain r6 w6 where s6: "AttachFileTo en ch ?rp defaultResultFilename w5 = (r6, w6)"
    by (metis prod.exhaust)
  obtain r7 w7 where s7: "deleteSrc en ?sr w6 = (r7, w7)" by (metis prod.exhaust)
  note k2 = Unzip_keeps[OF s2 k1]
  note k3 = cmd_Run_keeps[OF s3 k2 prog]
  note k4 = deleteSrc_keeps[OF s4 k3 out']
  note k5 = Zip_keeps[OF s5 k4]
  note k6 = AttachFileTo_keeps[OF s6 k5]
  note k7 = deleteSrc_keeps[OF s7 k6 out]
  have "snd (processFile en ch f w) \<in> {w1, w2, w3, w4, w5, w6, w7}"
    by (simp add: processFile_def dl s2 s3[simplified] s4 s5 s6 s7
             split: sum.splits option.splits)
  with k1 k2 k3 k4 k5 k6 k7 show ?thesis by auto
qed

section \<open>The temporary file of the download\<close>

lemma downloadFile_name:
  assumes "downloadFile en url w = (Inr tmp, w1)"
  shows "\<exists>r. tmp = path_join (os_TempDir en) (''devbot-'' @ r @ ''.zip'')"
proof -
  obtain bs code r0 w0' where rq: "request en ''GET'' url [] w = ((bs, code, r0), w0')"
    by (metis prod.exhaust)
  show ?thesis
    using assms
    by (auto simp: downloadFile_def rq Let_def split: option.splits sum.splits if_splits)
qed

lemma env0_program_keeps:
  "exists_at (fs w) q \<longrightarrow> exists_at (fst (e_exec env0 w n a)) q"
  by (auto simp: env0_def exists_write_file split: list.splits option.splits)

text \<open>
  C10, as amended. For every attachment whose download succeeds and whose staging root
  \<open>os.TempDir() + ID\<close> names neither the temporary file nor a directory above it, the
  temporary file \<open>devbot-*.zip\<close> the download created in the temp directory still
  exists when \<open>processFile\<close> returns, on the successful path and on every failing one,
  and it is not the staging root; this for every external program that does not
  itself remove the file. No call of the pipeline removes it.
\<close>

theorem C10_temp_file_is_left_behind:
  assumes dl: "downloadFile en (URLPrivate f) w = (Inr tmp, w1)"
    and out: "\<not> path_within en (staging_root en f) tmp"
    and prog: "\<forall>w n a. path_exists en (fs w) tmp \<longrightarrow> path_exists en (fst (e_exec en w n a)) tmp"
  shows "path_exists en (fs (snd (processFile en ch f w))) tmp
       \<and> tmp \<noteq> staging_root en f
       \<and> (\<exists>r. tmp = path_join (os_TempDir en) (''devbot-'' @ r @ ''.zip''))"
proof -
  from downloadFile_effect[OF dl] have "path_exists en (fs w1) tmp" by simp
  then obtain tc where tc: "locate en tmp = Some tc" "exists_at (fs w1) tc"
    using path_exists_located by blast
  obtain d where d: "locate en (staging_root en f) = Some d"
    using staging_root_located by blast
  from out tc(1) d have o: "\<not> inside en (staging_root en f) tc"
    by (simp add: path_within_def inside_def)
  from prog tc(1) have p: "\<forall>w n a. exists_at (fs w) tc \<longrightarrow> exists_at (fst (e_exec en w n a)) tc"
    by (simp add: path_exists_located)
  from processFile_keeps_outside[OF dl tc(2) o p] tc(1)
  have a: "path_exists en (fs (snd (processFile en ch f w))) tmp"
    by (auto simp: path_exists_located)
  have b: "tmp \<noteq> staging_root en f"
  proof
    assume "tmp = staging_root en f"
    with tc(1) d out show False by (simp add: path_within_def)
  qed
  from downloadFile_name[OF dl] a b show ?thesis by blast
qed

theorem C10_witness:
  "fst (downloadFile env0 (URLPrivate F1) w0) = Inr ''/tmp/devbot-1.zip'' \<and>
   \<not> path_within env0 (staging_root env0 F1) ''/tmp/devbot-1.zip'' \<and>
   path_exists env0 (fs (snd (processFile env0 ''C1'' F1 w0))) ''/tmp/devbot-1.zip'' \<and>
   path_exists env_exit2 (fs (snd (processFile env_exit2 ''C1'' F1 w0))) ''/tmp/devbot-1.zip''"
proof -
  have a: "fst (downloadFile env0 (URLPrivate F1) w0) = Inr ''/tmp/devbot-1.zip''" by code_simp
  then have d: "downloadFile env0 (URLPrivate F1) w0
     = (Inr ''/tmp/devbot-1.zip'', snd (downloadFile env0 (URLPrivate F1) w0))"
    by (metis prod.collapse)
  have a2: "fst (downloadFile env_exit2 (URLPrivate F1) w0) = Inr ''/tmp/devbot-1.zip''" by code_simp
  then have d2: "downloadFile env_exit2 (URLPrivate F1) w0
     = (Inr ''/tmp/devbot-1.zip'', snd (downloadFile env_exit2 (URLPrivate F1) w0))"
    by (metis prod.collapse)
  have o: "\<not> path_within env0 (staging_root env0 F1) ''/tmp/devbot-1.zip''" by code_simp
  have o2: "\<not> path_within env_exit2 (staging_root env_exit2 F1) ''/tmp/devbot-1.zip''" by code_simp
  have l: "locate env0 ''/tmp/devbot-1.zip'' = Some [''tmp'', ''devbot-1.zip'']" by code_simp
  have p: "\<forall>w n a. path_exists env0 (fs w) ''/tmp/devbot-1.zip''
      \<longrightarrow> path_exists env0 (fst (e_exec env0 w n a)) ''/tmp/devbot-1.zip''"
    using env0_program_keeps l by (simp add: path_exists_located)
  have p2: "\<forall>w n a. path_exists env_exit2 (fs w) ''/tmp/devbot-1.zip''
      \<longrightarrow> path_exists env_exit2 (fst (e_exec env_exit2 w n a)) ''/tmp/devbot-1.zip''"
    by (simp add: env_exit2_def)
  from C10_temp_file_is_left_behind[OF d o p, of "''C1''"]
    C10_temp_file_is_left_behind[OF d2 o2 p2, of "''C1''"] a o show ?thesis by blast
qed

text \<open>
  C10 as stated fails: for an attachment with the empty identifier the staging root
  is the temp directory itself, the temporary file lies in it, and the final removal
  of the staging root on the successful path removes the temporary file. The same
  happens when the identifier is a separator, and when the identifier is empty and
  \<open>TMPDIR\<close> ends in a separator.
\<close>

theorem C10_counterexample:
  "fst (downloadFile env0 (URLPrivate F_noid) w0) = Inr ''/tmp/devbot-1.zip'' \<and>
   fst (processFile env0 ''C1'' F_noid w0) = (F_noid, None) \<and>
   staging_root env0 F_noid = ''/tmp'' \<and>
   path_within env0 (staging_root env0 F_noid) ''/tmp/devbot-1.zip'' \<and>
   \<not> path_exists env0 (fs (snd (processFile env0 ''C1'' F_noid w0))) ''/tmp/devbot-1.zip'' \<and>
   staging_root env0 F_slash = ''/tmp/'' \<and>
   fst (processFile env0 ''C1'' F_slash w0) = (F_slash, None) \<and>
   \<not> path_exists env0 (fs (snd (processFile env0 ''C1'' F_slash w0))) ''/tmp/devbot-1.zip'' \<and>
   staging_root env_tmpdir_slash F_noid = ''/tmp/'' \<and>
   fst (downloadFile env_tmpdir_slash (URLPrivate F_noid) w0) = Inr ''/tmp/devbot-1.zip'' \<and>
   fst (processFile env_tmpdir_slash ''C1'' F_noid w0) = (F_noid, None) \<and>
   \<not> path_exists env_tmpdir_slash (fs (snd (processFile env_tmpdir_slash ''C1'' F_noid w0)))
       ''/tmp/devbot-1.zip''"
  by code_simp

section \<open>The staging area after a run\<close>

text \<open>
  C8, as amended. For every attachment whose run of \<open>processFile\<close> returns no error,
  which takes the success of the final removal of the staging root besides that of
  the download, the extraction, the transformation, the packaging and the upload: the
  attachment has been uploaded, the last call of the run is the successful removal of
  the staging root, and the staging root derived from the identifier of the
  attachment, with everything below it, no longer exists when \<open>processFile\<close> returns.
\<close>

theorem C8_staging_root_gone_after_success:
  assumes "processFile en ch f w = ((rf, None), w')"
  shows "uploads_done (events_since w w') = [upload_of en ch f]
       \<and> events_since w w' \<noteq> []
       \<and> last (events_since w w') = EvRemoveAll (staging_root en f) True
       \<and> \<not> path_exists en (fs w') (staging_root en f)
       \<and> (\<forall>q. inside en (staging_root en f) q \<longrightarrow> \<not> exists_at (fs w') q)"
proof -
  let ?sr = "staging_root en f"
  from processFile_uploads[OF assms] obtain evs where
    u: "trace w' = trace w @ evs" "uploads_done evs = [upload_of en ch f]" by auto
  from events_since_append[OF u(1)] u(2)
  have a: "uploads_done (events_since w w') = [upload_of en ch f]" by simp
  from processFile_trace[OF assms] obtain pre e where
    h: "events_since w w' = pre @ tail_events en ch f e" "ending_result en f e None" by blast
  from h(2) obtain ns where "e = Completed ns" by (cases e) (auto split: option.splits)
  with h(1) have b: "events_since w w' \<noteq> []"
    "last (events_since w w') = EvRemoveAll ?sr True" by simp_all
  from assms obtain w6 where s7: "deleteSrc en ?sr w6 = (None, w')"
    by (auto simp: processFile_def split: prod.splits sum.splits option.splits)
  obtain d where d: "locate en ?sr = Some d" using staging_root_located by blast
  from deleteSrc_effect[OF s7] d have "fs w' = remove_tree d (fs w6)" by simp
  then have c: "\<forall>q. inside en ?sr q \<longrightarrow> \<not> exists_at (fs w') q"
    using d by (simp add: inside_def exists_at_def map_of_remove_tree)
  moreover have "inside en ?sr d" using d by (simp add: inside_def)
  ultimately have "\<not> exists_at (fs w') d" by blast
  with d have "\<not> path_exists en (fs w') ?sr" by (simp add: path_exists_located)
  with a b c show ?thesis by blast
qed

theorem C8_witness:
  "path_exists env0 (fs w_left) ''/tmpF1'' \<and>
   fst (processFile env0 ''C1'' F1 w_left) = (F1, None) \<and>
   staging_root env0 F1 = ''/tmpF1'' \<and>
   uploads_done (events_since w_left (snd (processFile env0 ''C1'' F1 w_left)))
     = [(''C1'', ''/tmpF1/result.zip'', ''result.zip'')] \<and>
   \<not> path_exists env0 (fs (snd (processFile env0 ''C1'' F1 w_left))) ''/tmpF1''"
proof -
  let ?X = "processFile env0 ''C1'' F1 w_left"
  have e: "path_exists env0 (fs w_left) ''/tmpF1''" by code_simp
  have a: "fst ?X = (F1, None)" by code_simp
  then have x: "?X = ((F1, None), snd ?X)" by (metis prod.collapse)
  have b: "staging_root env0 F1 = ''/tmpF1''" by code_simp
  have u: "upload_of env0 ''C1'' F1 = (''C1'', ''/tmpF1/result.zip'', ''result.zip'')" by code_simp
  from C8_staging_root_gone_after_success[OF x] b u
  have "uploads_done (events_since w_left (snd ?X)) = [(''C1'', ''/tmpF1/result.zip'', ''result.zip'')]"
    "\<not> path_exists env0 (fs (snd ?X)) ''/tmpF1''" by simp_all
  with e a b show ?thesis by blast
qed

text \<open>
  C8 as stated fails: the download, the extraction, the transformation, the packaging
  and the upload all succeed, the final removal of the staging root fails, and the
  staging root still exists when \<open>processFile\<close> returns (with the error of the
  removal).
\<close>

theorem C8_counterexample:
  "events_since w0 (snd (processFile env_teardown_fails ''C1'' F1 w0)) =
     [EvRequest ''GET'' ''http://x/a.zip'', EvTempFile ''/tmp/devbot-1.zip'',
      EvUnzip ''/tmp/devbot-1.zip'' ''/tmpF1/downloaded_template'',
      EvRun ''./scripts/themer/themer.phar'' [''--path=/tmpF1/downloaded_template''] (Exited 0),
      EvRemoveAll ''/tmpF1/downloaded_template'' True,
      EvZip ''/tmpF1'' ''/tmpF1/result.zip'' [[''downloaded_template_out'', ''index.html'']],
      EvAttachFileTo ''C1'' ''/tmpF1/result.zip'' ''result.zip'' True,
      EvRemoveAll ''/tmpF1'' False] \<and>
   fst (processFile env_teardown_fails ''C1'' F1 w0)
     = (F1, Some (RemoveAllError ''/tmpF1'' ''permission denied'')) \<and>
   staging_root env_teardown_fails F1 = ''/tmpF1'' \<and>
   path_exists env_teardown_fails (fs (snd (processFile env_teardown_fails ''C1'' F1 w0))) ''/tmpF1''"
  by code_simp

text \<open>
  C5, as amended. For every attachment whose run reaches the packaging: the archive is
  built from the staging root, the call just before it is the successful recursive
  removal of the extracted subtree \<open>downloaded_template\<close>, and the archive is built
  from the regular files below the staging root of a filesystem from which that
  subtree has been removed, so no entry is the extracted subtree or lies below it. The
  downloaded archive file itself can be an entry only when the temporary file lies
  below the staging root: no entry is a file at a path that the staging root is not
  above.
\<close>

theorem C5_extracted_subtree_removed_before_packaging:
  assumes "processFile en ch f w = ((rf, r), w')"
    and "events_since w w' = xs @ EvZip s t ns # ys"
  shows "s = staging_root en f
       \<and> (\<exists>xs'. xs = xs' @ [EvRemoveAll (extracted_dir en f) True])
       \<and> built_after_removal en f ns
       \<and> (\<forall>n\<in>set ns. \<not> prefix [''downloaded_template''] n)
       \<and> (\<forall>p. \<not> path_within en (staging_root en f) p \<longrightarrow>
             (\<forall>n\<in>set ns. \<not> entry_is en (staging_root en f) n p))"
proof -
  from processFile_trace[OF assms(1)] obtain pre e where
    h: "list_all quiet pre" "events_since w w' = pre @ tail_events en ch f e"
       "\<forall>n\<in>set (ending_names e). \<not> prefix [''downloaded_template''] n"
       "built_after_removal en f (ending_names e)" by blast
  from h(2) assms(2) have "pre @ tail_events en ch f e = xs @ EvZip s t ns # ys" by simp
  from split_after_quiet[OF h(1) this] obtain k where
    k: "xs = pre @ k" "tail_events en ch f e = k @ EvZip s t ns # ys" by auto
  have "s = staging_root en f \<and> k = [themer_event en f (Exited 0), EvRemoveAll (extracted_dir en f) True]
      \<and> ns = ending_names e"
    using k(2)
    by (cases e) (auto simp: Cons_eq_append_conv themer_event_def zip_event_def attach_event_def)
  with k(1) h(3,4) have a: "s = staging_root en f"
    "\<exists>xs'. xs = xs' @ [EvRemoveAll (extracted_dir en f) True]"
    "\<forall>n\<in>set ns. \<not> prefix [''downloaded_template''] n"
    "built_after_removal en f ns" by auto
  have b: "\<not> entry_is en (staging_root en f) n p"
    if "\<not> path_within en (staging_root en f) p" for n p
    using that by (auto simp: entry_is_def path_within_def split: option.splits)
  from a b show ?thesis by blast
qed

theorem C5_witness:
  "events_since w_left (snd (processFile env0 ''C1'' F1 w_left)) =
     [EvRequest ''GET'' ''http://x/a.zip'', EvTempFile ''/tmp/devbot-1.zip'',
      EvUnzip ''/tmp/devbot-1.zip'' ''/tmpF1/downloaded_template'',
      EvRun ''./scripts/themer/themer.phar'' [''--path=/tmpF1/downloaded_template''] (Exited 0),
      EvRemoveAll ''/tmpF1/downloaded_template'' True] @
     EvZip ''/tmpF1'' ''/tmpF1/result.zip''
       [[''old.html''], [''downloaded_template_out'', ''index.html'']] #
     [EvAttachFileTo ''C1'' ''/tmpF1/result.zip'' ''result.zip'' True, EvRemoveAll ''/tmpF1'' True] \<and>
   staging_root env0 F1 = ''/tmpF1'' \<and>
   extracted_dir env0 F1 = ''/tmpF1/downloaded_template'' \<and>
   \<not> prefix [''downloaded_template''] [''downloaded_template_out'', ''index.html''] \<and>
   \<not> path_within env0 (staging_root env0 F1) ''/tmp/devbot-1.zip'' \<and>
   \<not> entry_is env0 (staging_root env0 F1) [''old.html''] ''/tmp/devbot-1.zip''"
proof -
  let ?X = "processFile env0 ''C1'' F1 w_left"
  have x: "?X = ((fst (fst ?X), snd (fst ?X)), snd ?X)" by simp
  have a: "events_since w_left (snd ?X) =
     [EvRequest ''GET'' ''http://x/a.zip'', EvTempFile ''/tmp/devbot-1.zip'',
      EvUnzip ''/tmp/devbot-1.zip'' ''/tmpF1/downloaded_template'',
      EvRun ''./scripts/themer/themer.phar'' [''--path=/tmpF1/downloaded_template''] (Exited 0),
      EvRemoveAll ''/tmpF1/downloaded_template'' True] @
     EvZip ''/tmpF1'' ''/tmpF1/result.zip''
       [[''old.html''], [''downloaded_template_out'', ''index.html'']] #
     [EvAttachFileTo ''C1'' ''/tmpF1/result.zip'' ''result.zip'' True, EvRemoveAll ''/tmpF1'' True]"
    by code_simp
  have b: "extracted_dir env0 F1 = ''/tmpF1/downloaded_template''" by code_simp
  have o: "\<not> path_within env0 (staging_root env0 F1) ''/tmp/devbot-1.zip''" by code_simp
  from C5_extracted_subtree_removed_before_packaging[OF x a]
  have c: "''/tmpF1'' = staging_root env0 F1"
    "\<forall>n\<in>set [[''old.html''], [''downloaded_template_out'', ''index.html'']].
        \<not> prefix [''downloaded_template''] n"
    "\<forall>p. \<not> path_within env0 (staging_root env0 F1) p \<longrightarrow>
        (\<forall>n\<in>set [[''old.html''], [''downloaded_template_out'', ''index.html'']].
           \<not> entry_is env0 (staging_root env0 F1) n p)"
    by blast+
  from c(2) have d: "\<not> prefix [''downloaded_template''] [''downloaded_template_out'', ''index.html'']"
    by simp
  from c(3) o have e: "\<not> entry_is env0 (staging_root env0 F1) [''old.html''] ''/tmp/devbot-1.zip''"
    by simp
  from a b c(1) d o e show ?thesis by simp
qed

text \<open>
  C5 as stated fails: for an attachment with the empty identifier the staging root is
  the temp directory, and the result archive is built with the downloaded archive
  file \<open>devbot-1.zip\<close> among its entries.
\<close>

theorem C5_counterexample:
  "fst (downloadFile env0 (URLPrivate F_noid) w0) = Inr ''/tmp/devbot-1.zip'' \<and>
   fst (processFile env0 ''C1'' F_noid w0) = (F_noid, None) \<and>
   events_since w0 (snd (processFile env0 ''C1'' F_noid w0)) =
     [EvRequest ''GET'' ''http://x/a.zip'', EvTempFile ''/tmp/devbot-1.zip'',
      EvUnzip ''/tmp/devbot-1.zip'' ''/tmp/downloaded_template'',
      EvRun ''./scripts/themer/themer.phar'' [''--path=/tmp/downloaded_template''] (Exited 0),
      EvRemoveAll ''/tmp/downloaded_template'' True,
      EvZip ''/tmp'' ''/tmp/result.zip''
        [[''devbot-1.zip''], [''downloaded_template_out'', ''index.html'']],
      EvAttachFileTo ''C1'' ''/tmp/result.zip'' ''result.zip'' True,
      EvRemoveAll ''/tmp'' True] \<and>
   entry_is env0 (staging_root env0 F_noid) [''devbot-1.zip''] ''/tmp/devbot-1.zip''"
  by code_simp

section \<open>Entries that leave the destination\<close>

lemma entry_target_escapes: "escapes name \<Longrightarrow> entry_target dest name = None"
  by (simp add: escapes_def entry_target_def)

lemma extract_entries_rejects:
  "(name, data) \<in> set es \<Longrightarrow> escapes name \<Longrightarrow> extract_entries en dest es w = (r, w') \<Longrightarrow>
   (\<exists>n. r = Inl (IllegalFilePath n) \<and> escapes n) \<or> (\<exists>p. r = Inl (ExtractWriteError p))"
proof (induction es arbitrary: w r w')
  case Nil
  then show ?case by simp
next
  case (Cons a es)
  obtain n d where a: "a = (n, d)" by (cases a)
  show ?case
  proof (cases "entry_target dest n")
    case None
    then have "escapes n" by (simp add: escapes_def entry_target_def split: option.splits)
    with Cons.prems(3) a None show ?thesis by auto
  next
    case (Some target)
    then have ne: "\<not> escapes n" using entry_target_escapes by fastforce
    with Cons.prems(1,2) a have mem: "(name, data) \<in> set es" by auto
    show ?thesis
    proof (cases "locate en target")
      case None
      with Cons.prems(3) a Some show ?thesis by auto
    next
      case loc: (Some t)
      show ?thesis
      proof (cases "e_extract_fails en w target")
        case True
        with Cons.prems(3) a Some loc show ?thesis by auto
      next
        case False
        obtain r1 w1 where rec:
          "extract_entries en dest es (w\<lparr>fs := write_file t d (fs w)\<rparr>) = (r1, w1)"
          by (metis prod.exhaust)
        from Cons.IH[OF mem Cons.prems(2) rec]
        have ih: "(\<exists>n. r1 = Inl (IllegalFilePath n) \<and> escapes n)
                \<or> (\<exists>p. r1 = Inl (ExtractWriteError p))" .
        from Cons.prems(3) a Some loc False rec ih have "r = r1" by (auto split: sum.splits)
        with ih show ?thesis by simp
      qed
    qed
  qed
qed

lemma extract_entries_frame:
  "extract_entries en dest es w = (r, w') \<Longrightarrow> locate en dest = Some dc \<Longrightarrow> \<not> prefix dc q \<Longrightarrow>
   map_of (fs w') q = Some (Regular c) \<Longrightarrow> map_of (fs w) q = Some (Regular c)"
proof (induction es arbitrary: w r w')
  case Nil
  then show ?case by simp
next
  case (Cons a es)
  obtain n d where a: "a = (n, d)" by (cases a)
  show ?case
  proof (cases "entry_target dest n")
    case None
    with Cons.prems a show ?thesis by simp
  next
    case (Some target)
    show ?thesis
    proof (cases "locate en target")
      case None
      with Cons.prems a Some show ?thesis by simp
    next
      case loc: (Some t)
      have qt: "q \<noteq> t"
      proof -
        from entry_target_inside[OF Some Cons.prems(2)] loc have "prefix dc t" by auto
        with Cons.prems(3) show ?thesis by auto
      qed
      show ?thesis
      proof (cases "e_extract_fails en w target")
        case True
        with Cons.prems a Some loc show ?thesis by simp
      next
        case False
        obtain r1 w1 where rec:
          "extract_entries en dest es (w\<lparr>fs := write_file t d (fs w)\<rparr>) = (r1, w1)"
          by (metis prod.exhaust)
        from Cons.prems(1) a Some loc False rec have "w' = w1" by (auto split: sum.splits)
        with Cons.prems(4) have "map_of (fs w1) q = Some (Regular c)" by simp
        from Cons.IH[OF rec Cons.prems(2,3) this]
        have "map_of (write_file t d (fs w)) q = Some (Regular c)" by simp
        with qt show ?thesis
          by (auto simp: map_of_write_file map_of_mkdirs split: option.splits if_splits)
      qed
    qed
  qed
qed

text \<open>
  C2. For every archive that decodes and holds an entry whose path escapes the
  destination directory (such as \<open>../../etc/passwd\<close>), the extraction returns an
  error: the rejection of an escaping entry, or the write failure of an entry before
  it. Whatever else the archive holds, no regular file outside the destination
  directory is created or changed.
\<close>

theorem C2_escaping_entry_rejected:
  assumes "node_at en (fs w) archive = Some (Regular b)"
    and "e_zip_decode en b = Some entries"
    and "(name, data) \<in> set entries" and "escapes name"
    and "Unzip en archive dest w = (r, w')"
  shows "((\<exists>n. r = Inl (IllegalFilePath n) \<and> escapes n) \<or> (\<exists>p. r = Inl (ExtractWriteError p)))
       \<and> (\<forall>q c. \<not> inside en dest q \<and> map_of (fs w') q = Some (Regular c)
              \<longrightarrow> map_of (fs w) q = Some (Regular c))"
proof (cases "locate en dest")
  case None
  with assms(1,2,5) have "r = Inl (ExtractWriteError dest) \<and> fs w' = fs w"
    by (auto simp: Unzip_def log_event_def Let_def)
  then show ?thesis by simp
next
  case (Some d)
  let ?w1 = "(log_event (EvUnzip archive dest) w)\<lparr>fs := mkdir_all d (fs w)\<rparr>"
  from assms(1,2,5) Some have ex: "extract_entries en dest entries ?w1 = (r, w')"
    by (simp add: Unzip_def log_event_def Let_def)
  note rej = extract_entries_rejects[OF assms(3,4) ex]
  have "map_of (fs w) q = Some (Regular c)"
    if "\<not> inside en dest q" "map_of (fs w') q = Some (Regular c)" for q c
  proof -
    from that(1) Some have "\<not> prefix d q" by (simp add: inside_def)
    from extract_entries_frame[OF ex Some this that(2)] have "map_of (mkdir_all d (fs w)) q = Some (Regular c)"
      by simp
    then show ?thesis
      by (auto simp: mkdir_all_def map_of_mkdirs split: option.splits if_splits)
  qed
  with rej show ?thesis by blast
qed

theorem C2_witness:
  "node_at env_slip (fs w_zip) ''/tmp/a.zip'' = Some (Regular ''PK'') \<and>
   e_zip_decode env_slip ''PK'' = Some [(''a.txt'', ''A''), (''../../etc/passwd'', ''root'')] \<and>
   escapes ''../../etc/passwd'' \<and>
   \<not> inside env_slip ''/tmpF1/downloaded_template'' [''etc'', ''passwd''] \<and>
   locate env_slip ''/etc/passwd'' = Some [''etc'', ''passwd''] \<and>
   fst (Unzip env_slip ''/tmp/a.zip'' ''/tmpF1/downloaded_template'' w_zip)
     = Inl (IllegalFilePath ''../../etc/passwd'') \<and>
   map_of (fs (snd (Unzip env_slip ''/tmp/a.zip'' ''/tmpF1/downloaded_template'' w_zip)))
      [''etc'', ''passwd''] \<noteq> Some (Regular ''root'')"
proof -
  let ?U = "Unzip env_slip ''/tmp/a.zip'' ''/tmpF1/downloaded_template'' w_zip"
  have a: "node_at env_slip (fs w_zip) ''/tmp/a.zip'' = Some (Regular ''PK'')" by code_simp
  have b: "e_zip_decode env_slip ''PK'' = Some [(''a.txt'', ''A''), (''../../etc/passwd'', ''root'')]"
    by (simp add: env_slip_def env0_def)
  have c: "(''../../etc/passwd'', ''root'') \<in> set [(''a.txt'', ''A''), (''../../etc/passwd'', ''root'')]"
    by simp
  have d: "escapes ''../../etc/passwd''" by code_simp
  have e: "?U = (fst ?U, snd ?U)" by simp
  have f: "\<not> inside env_slip ''/tmpF1/downloaded_template'' [''etc'', ''passwd'']" by code_simp
  have g: "map_of (fs w_zip) [''etc'', ''passwd''] = None" by code_simp
  have h: "fst ?U = Inl (IllegalFilePath ''../../etc/passwd'')" by code_simp
  have l: "locate env_slip ''/etc/passwd'' = Some [''etc'', ''passwd'']" by code_simp
  from C2_escaping_entry_rejected[OF a b c d e] f g
  have "map_of (fs (snd ?U)) [''etc'', ''passwd''] \<noteq> Some (Regular ''root'')" by fastforce
  with a b d f h l show ?thesis by blast
qed

section \<open>Teardown of the staging root\<close>

lemma quiet_no_teardown: "list_all quiet pre \<Longrightarrow> filter (is_teardown p) pre = []"
proof (induction pre)
  case Nil
  then show ?case by simp
next
  case (Cons a pre)
  then show ?case by (cases a) auto
qed

lemma tail_teardowns:
  assumes "ending_result en f e r"
  shows "length (filter (is_teardown (staging_root en f)) (tail_events en ch f e)) =
           (if r = None \<or> teardown_error en f r then 1 else 0)"
proof (cases e)
  case Early
  with assms show ?thesis by (auto simp: early_error_kind split: option.splits)
next
  case (RunFailed out)
  with assms show ?thesis by (auto simp: run_error_kind themer_event_def)
next
  case CleanFailed
  with assms show ?thesis
    by (auto simp: themer_event_def extracted_dir_not_root split: option.splits error.splits)
next
  case (ZipFailed ns)
  with assms show ?thesis
    by (auto simp: themer_event_def zip_event_def extracted_dir_not_root)
next
  case (AttachFailed ns)
  with assms show ?thesis
    by (auto simp: themer_event_def zip_event_def attach_event_def extracted_dir_not_root
             split: option.splits error.splits)
next
  case (TeardownFailed ns)
  with assms show ?thesis
    by (auto simp: themer_event_def zip_event_def attach_event_def extracted_dir_not_root
             split: option.splits error.splits)
next
  case (Completed ns)
  with assms show ?thesis
    by (auto simp: themer_event_def zip_event_def attach_event_def extracted_dir_not_root)
qed

lemma teardown_calls:
  assumes "processFile en ch f w = ((rf, r), w')"
  shows "length (filter (is_teardown (staging_root en f)) (events_since w w')) =
           (if r = None \<or> teardown_error en f r then 1 else 0)"
proof -
  from processFile_trace[OF assms] obtain pre e where
    h: "list_all quiet pre" "events_since w w' = pre @ tail_events en ch f e"
       "ending_result en f e r" by blast
  from quiet_no_teardown[OF h(1)] tail_teardowns[OF h(3)] h(2) show ?thesis by simp
qed

text \<open>
  C1. The claim: once the extraction has created the staging root of an attachment,
  the removal of the staging root is called exactly once, whether the pipeline
  succeeds or fails later. The code calls it on the successful path only
  (\<open>teardown_calls\<close>: once when the run succeeds or fails in that very removal, not at
  all when it fails before). The run below fails in the transformation (exit status 2)
  after the extraction: the removal of the staging root is not called and the staging
  root stays on the filesystem. The run that succeeds calls it once.
\<close>

theorem C1_no_teardown_after_transform_failure:
  "fst (processFile env_exit2 ''C1'' F1 w0) = (F1, Some (ExitError 2)) \<and>
   EvUnzip ''/tmp/devbot-1.zip'' (extracted_dir env_exit2 F1)
     \<in> set (events_since w0 (snd (processFile env_exit2 ''C1'' F1 w0))) \<and>
   filter (is_teardown (staging_root env_exit2 F1))
     (events_since w0 (snd (processFile env_exit2 ''C1'' F1 w0))) = [] \<and>
   path_exists env_exit2 (fs (snd (processFile env_exit2 ''C1'' F1 w0))) (staging_root env_exit2 F1) \<and>
   length (filter (is_teardown (staging_root env0 F1))
     (events_since w0 (snd (processFile env0 ''C1'' F1 w0)))) = 1"
  by code_simp

end
